theory Spec2Isabelle
  imports Main "HOL-Library.Char_ord" "HOL-Library.List_Lexorder" "HOL-Library.Multiset"
begin

section \<open>GitLab user domains extractor (main.py)\<close>

text \<open>
  A shallow embedding of \<^verbatim>\<open>main.py\<close>. Python strings are \<open>string\<close>; the order on
  strings is the lexicographic order on character codes, which is how Python compares
  \<^verbatim>\<open>str\<close> values. Python exceptions are values of the type \<open>exn\<close>, and a function
  that may raise returns \<open>exn + 'a\<close>. Everything the script does to the outside (API
  calls, log records, the two output files) is recorded in an explicit \<open>world\<close> that
  every operation takes and returns. What the outside does to the script (what the
  server answers, which file operations fail) is a parameter, the record \<open>env\<close>.
\<close>

subsection \<open>Exceptions\<close>

text \<open>
  The exception classes the script names, and two classes standing for every other one:
  \<open>OtherException\<close> derives from \<^verbatim>\<open>Exception\<close>, \<open>OtherBaseException\<close> (such as
  \<^verbatim>\<open>KeyboardInterrupt\<close>) only from \<^verbatim>\<open>BaseException\<close>. \<^verbatim>\<open>sys.exit(n)\<close> raises
  \<open>SystemExit n\<close>. In Python 3 \<^verbatim>\<open>IOError\<close> is \<^verbatim>\<open>OSError\<close>, and
  \<^verbatim>\<open>requests.exceptions.RequestException\<close> is a subclass of it.
\<close>

datatype exn =
    SystemExit nat
  | GitlabAuthenticationError
  | RequestException
  | IOError
  | OtherException
  | OtherBaseException

fun is_Exception :: "exn \<Rightarrow> bool" where
  "is_Exception (SystemExit n) = False"
| "is_Exception OtherBaseException = False"
| "is_Exception e = True"

fun is_GitlabAuthenticationError :: "exn \<Rightarrow> bool" where
  "is_GitlabAuthenticationError GitlabAuthenticationError = True"
| "is_GitlabAuthenticationError e = False"

fun is_RequestException :: "exn \<Rightarrow> bool" where
  "is_RequestException RequestException = True"
| "is_RequestException e = False"

fun is_IOError :: "exn \<Rightarrow> bool" where
  "is_IOError IOError = True"
| "is_IOError RequestException = True"
| "is_IOError e = False"

subsection \<open>Data model\<close>

text \<open>A user record of the API: \<^verbatim>\<open>user.username\<close> and \<^verbatim>\<open>user.email\<close> (which may be \<^verbatim>\<open>None\<close>).\<close>

record user =
  username :: string
  email :: "string option"

text \<open>Python truthiness of an optional string: \<^verbatim>\<open>None\<close> and \<^verbatim>\<open>""\<close> are falsy.\<close>

fun truthy :: "string option \<Rightarrow> bool" where
  "truthy None = False"
| "truthy (Some s) = (s \<noteq> [])"

text \<open>\<^verbatim>\<open>a or b\<close> on optional strings.\<close>

definition py_or :: "string option \<Rightarrow> string option \<Rightarrow> string option" where
  "py_or a b = (if truthy a then a else b)"

datatype path = USERS_FILE | DOMAINS_FILE

datatype api_call =
    GitlabSession "string option" "string option"
  | GlAuth
  | UsersList nat nat

datatype log_msg =
    MissingConfig
  | Connected
  | AuthenticationFailed
  | ConnectionFailed exn
  | FetchingUsers
  | TotalUsers nat
  | Skipped nat
  | WriteFailed exn
  | DomainsFound nat
  | DomainsSaved
  | UsersSaved
  | Completed
  | Unexpected exn

text \<open>
  The world: the API calls issued so far, the log records emitted so far, and the content
  of each output file (\<open>None\<close> when the file does not exist).
\<close>

record world =
  api_calls :: "api_call list"
  logged :: "log_msg list"
  files :: "path \<Rightarrow> string option"

definition call :: "api_call \<Rightarrow> world \<Rightarrow> world" where
  "call c w = w\<lparr>api_calls := api_calls w @ [c]\<rparr>"

definition logging :: "log_msg \<Rightarrow> world \<Rightarrow> world" where
  "logging m w = w\<lparr>logged := logged w @ [m]\<rparr>"

definition put_file :: "path \<Rightarrow> string \<Rightarrow> world \<Rightarrow> world" where
  "put_file p s w = w\<lparr>files := (files w)(p \<mapsto> s)\<rparr>"

text \<open>
  The environment: the command-line flags and environment variables, the exception
  \<^verbatim>\<open>gl.auth()\<close> raises (if any), the answer of \<^verbatim>\<open>gl.users.list(per_page, page)\<close>,
  and the exceptions raised by opening a file for writing and by the \<open>n\<close>-th
  \<^verbatim>\<open>write\<close> on it (counted from 0).
\<close>

record env =
  cli_url :: "string option"
  cli_token :: "string option"
  env_url :: "string option"
  env_token :: "string option"
  auth_exn :: "exn option"
  users_list :: "nat \<Rightarrow> nat \<Rightarrow> exn + user list"
  open_exn :: "path \<Rightarrow> exn option"
  write_exn :: "path \<Rightarrow> nat \<Rightarrow> exn option"

subsection \<open>Configuration (module level)\<close>

definition GITLAB_URL :: "env \<Rightarrow> string option" where
  "GITLAB_URL cfg = py_or (cli_url cfg) (env_url cfg)"

definition PRIVATE_TOKEN :: "env \<Rightarrow> string option" where
  "PRIVATE_TOKEN cfg = py_or (cli_token cfg) (env_token cfg)"

subsection \<open>connect_gitlab\<close>

text \<open>
  The body of the \<^verbatim>\<open>try\<close>: construct the session, authenticate, log. Then the two
  \<^verbatim>\<open>except\<close> clauses in the source's order; any other exception propagates.
\<close>

definition connect_gitlab_try :: "env \<Rightarrow> world \<Rightarrow> (exn + unit) \<times> world" where
  "connect_gitlab_try cfg w =
     (let w1 = call (GitlabSession (GITLAB_URL cfg) (PRIVATE_TOKEN cfg)) w;
          w2 = call GlAuth w1
      in case auth_exn cfg of
           Some e \<Rightarrow> (Inl e, w2)
         | None \<Rightarrow> (Inr (), logging Connected w2))"

definition connect_gitlab :: "env \<Rightarrow> world \<Rightarrow> (exn + unit) \<times> world" where
  "connect_gitlab cfg w =
     (case connect_gitlab_try cfg w of
        (Inr gl, w') \<Rightarrow> (Inr gl, w')
      | (Inl e, w') \<Rightarrow>
          if is_GitlabAuthenticationError e
          then (Inl (SystemExit 2), logging AuthenticationFailed w')
          else if is_RequestException e
          then (Inl (SystemExit 3), logging (ConnectionFailed e) w')
          else (Inl e, w'))"

subsection \<open>get_users\<close>

text \<open>
  The \<^verbatim>\<open>while True\<close> loop. It need not end (a server that never returns an empty page),
  so it is a partial function: \<open>None\<close> is a run that never returns.
\<close>

partial_function (option) get_users_loop ::
  "env \<Rightarrow> user list \<Rightarrow> nat \<Rightarrow> world \<Rightarrow> ((exn + user list) \<times> world) option" where
  "get_users_loop cfg users page w =
     (let w' = call (UsersList 100 page) w in
      case users_list cfg 100 page of
        Inl e \<Rightarrow> Some (Inl e, w')
      | Inr batch \<Rightarrow>
          if batch = [] then Some (Inr users, w')
          else get_users_loop cfg (users @ batch) (page + 1) w')"

definition get_users :: "env \<Rightarrow> world \<Rightarrow> ((exn + user list) \<times> world) option" where
  "get_users cfg w =
     (case get_users_loop cfg [] 1 (logging FetchingUsers w) of
        None \<Rightarrow> None
      | Some (Inl e, w') \<Rightarrow> Some (Inl e, w')
      | Some (Inr users, w') \<Rightarrow> Some (Inr users, logging (TotalUsers (length users)) w'))"

subsection \<open>extract_domains\<close>

text \<open>The character class \<^verbatim>\<open>[a-zA-Z0-9.-]\<close>.\<close>

definition is_host_char :: "char \<Rightarrow> bool" where
  "is_host_char c \<longleftrightarrow>
     (CHR ''a'' \<le> c \<and> c \<le> CHR ''z'') \<or> (CHR ''A'' \<le> c \<and> c \<le> CHR ''Z'') \<or>
     (CHR ''0'' \<le> c \<and> c \<le> CHR ''9'') \<or> c = CHR ''.'' \<or> c = CHR ''-''"

text \<open>
  \<^verbatim>\<open>domain_pattern.search(s)\<close> for the pattern \<^verbatim>\<open>@([a-zA-Z0-9.-]+)\<close>, returning group 1:
  the leftmost position where the pattern matches is the first \<^verbatim>\<open>@\<close> that is directly
  followed by a character of the class, and the greedy \<^verbatim>\<open>+\<close> takes the longest run of
  class characters there.
\<close>

fun search :: "string \<Rightarrow> string option" where
  "search [] = None"
| "search (c # cs) =
     (if c = CHR ''@'' \<and> takeWhile is_host_char cs \<noteq> []
      then Some (takeWhile is_host_char cs)
      else search cs)"

text \<open>
  \<^verbatim>\<open>str.lower()\<close>. It is applied to captured groups only, which hold characters of the
  class, so only \<^verbatim>\<open>A\<close> to \<^verbatim>\<open>Z\<close> change.
\<close>

definition lower_char :: "char \<Rightarrow> char" where
  "lower_char c =
     (if CHR ''A'' \<le> c \<and> c \<le> CHR ''Z'' then char_of (of_char c + (32::nat)) else c)"

definition lower :: "string \<Rightarrow> string" where
  "lower s = map lower_char s"

text \<open>One step of the set comprehension, and the comprehension over the users in order.\<close>

definition add_domain :: "user \<Rightarrow> string set \<Rightarrow> string set" where
  "add_domain u acc =
     (if truthy (email u)
      then (case search (the (email u)) of
              Some g \<Rightarrow> insert (lower g) acc
            | None \<Rightarrow> acc)
      else acc)"

definition domain_comprehension :: "user list \<Rightarrow> string set" where
  "domain_comprehension users = fold add_domain users {}"

text \<open>The line \<^verbatim>\<open>f"{user.username} - {user.email}\n"\<close> of a user with an email.\<close>

definition user_line :: "user \<Rightarrow> string" where
  "user_line u = username u @ '' - '' @ the (email u) @ ''\<newline>''"

text \<open>
  The \<^verbatim>\<open>for\<close> loop writing the users: the state is the content written so far, the
  number of \<^verbatim>\<open>write\<close> calls done and \<^verbatim>\<open>skipped_users\<close>. A failing \<^verbatim>\<open>write\<close> ends
  the loop with its exception; what was written before stays in the file.
\<close>

fun write_users ::
  "env \<Rightarrow> user list \<Rightarrow> string \<Rightarrow> nat \<Rightarrow> nat \<Rightarrow> exn option \<times> string \<times> nat" where
  "write_users cfg [] content n skipped_users = (None, content, skipped_users)"
| "write_users cfg (u # rest) content n skipped_users =
     (if truthy (email u)
      then (case write_exn cfg USERS_FILE n of
              Some e \<Rightarrow> (Some e, content, skipped_users)
            | None \<Rightarrow> write_users cfg rest (content @ user_line u) (n + 1) skipped_users)
      else write_users cfg rest content n (skipped_users + 1))"

definition extract_domains :: "env \<Rightarrow> user list \<Rightarrow> world \<Rightarrow> (exn + string set) \<times> world" where
  "extract_domains cfg users w =
     (case open_exn cfg USERS_FILE of
        Some e \<Rightarrow> (Inl e, w)
      | None \<Rightarrow>
          (let domains = domain_comprehension users in
           case write_users cfg users [] 0 0 of
             (Some e, content, skipped_users) \<Rightarrow> (Inl e, put_file USERS_FILE content w)
           | (None, content, skipped_users) \<Rightarrow>
               (Inr domains, logging (Skipped skipped_users) (put_file USERS_FILE content w))))"

subsection \<open>save_domains\<close>

text \<open>\<^verbatim>\<open>sep.join(xs)\<close>.\<close>

fun join :: "string \<Rightarrow> string list \<Rightarrow> string" where
  "join sep [] = []"
| "join sep [x] = x"
| "join sep (x # y # ys) = x @ sep @ join sep (y # ys)"

text \<open>
  The body of the \<^verbatim>\<open>try\<close>: open (which truncates), one \<^verbatim>\<open>write\<close>. Then the
  \<^verbatim>\<open>except IOError\<close> clause, and the two log records on success. \<^verbatim>\<open>sorted\<close> of a set
  of strings is its ascending enumeration.
\<close>

definition save_domains_try :: "env \<Rightarrow> string set \<Rightarrow> world \<Rightarrow> (exn + unit) \<times> world" where
  "save_domains_try cfg domains w =
     (case open_exn cfg DOMAINS_FILE of
        Some e \<Rightarrow> (Inl e, w)
      | None \<Rightarrow>
          (case write_exn cfg DOMAINS_FILE 0 of
             Some e \<Rightarrow> (Inl e, put_file DOMAINS_FILE [] w)
           | None \<Rightarrow>
               (Inr (), put_file DOMAINS_FILE
                          (join ''\<newline>'' (sorted_list_of_set domains) @ ''\<newline>'') w)))"

definition save_domains :: "env \<Rightarrow> string set \<Rightarrow> world \<Rightarrow> (exn + unit) \<times> world" where
  "save_domains cfg domains w =
     (case save_domains_try cfg domains w of
        (Inl e, w') \<Rightarrow>
          if is_IOError e then (Inl (SystemExit 6), logging (WriteFailed e) w')
          else (Inl e, w')
      | (Inr u, w') \<Rightarrow>
          (Inr (), logging DomainsSaved (logging (DomainsFound (card domains)) w')))"

subsection \<open>main and the script\<close>

text \<open>The body of the \<^verbatim>\<open>try\<close> in \<^verbatim>\<open>main\<close>: the four steps, each ending the body when it raises.\<close>

definition main_try :: "env \<Rightarrow> world \<Rightarrow> ((exn + unit) \<times> world) option" where
  "main_try cfg w =
     (case connect_gitlab cfg w of
        (Inl e, w1) \<Rightarrow> Some (Inl e, w1)
      | (Inr gl, w1) \<Rightarrow>
          (case get_users cfg w1 of
             None \<Rightarrow> None
           | Some (Inl e, w2) \<Rightarrow> Some (Inl e, w2)
           | Some (Inr users, w2) \<Rightarrow>
               (case extract_domains cfg users w2 of
                  (Inl e, w3) \<Rightarrow> Some (Inl e, w3)
                | (Inr unique_domains, w3) \<Rightarrow>
                    (case save_domains cfg unique_domains w3 of
                       (Inl e, w4) \<Rightarrow> Some (Inl e, w4)
                     | (Inr u, w4) \<Rightarrow> Some (Inr (), logging Completed (logging UsersSaved w4))))))"

text \<open>\<^verbatim>\<open>except Exception\<close>: only instances of \<^verbatim>\<open>Exception\<close> are caught and turned into exit 7.\<close>

definition main :: "env \<Rightarrow> world \<Rightarrow> ((exn + unit) \<times> world) option" where
  "main cfg w =
     (case main_try cfg w of
        None \<Rightarrow> None
      | Some (Inr u, w') \<Rightarrow> Some (Inr u, w')
      | Some (Inl e, w') \<Rightarrow>
          if is_Exception e then Some (Inl (SystemExit 7), logging (Unexpected e) w')
          else Some (Inl e, w'))"

text \<open>The script run as a program: the module-level configuration check, then \<^verbatim>\<open>main()\<close>.\<close>

definition script :: "env \<Rightarrow> world \<Rightarrow> ((exn + unit) \<times> world) option" where
  "script cfg w =
     (if \<not> truthy (GITLAB_URL cfg) \<or> \<not> truthy (PRIVATE_TOKEN cfg)
      then Some (Inl (SystemExit 1), logging MissingConfig w)
      else main cfg w)"

text \<open>The exit status of the process: 0 on a normal end, \<open>n\<close> after \<^verbatim>\<open>sys.exit(n)\<close>.\<close>

fun exit_code :: "exn + unit \<Rightarrow> nat option" where
  "exit_code (Inr u) = Some 0"
| "exit_code (Inl (SystemExit n)) = Some n"
| "exit_code (Inl e) = None"

subsection \<open>Notions used to state the properties\<close>

text \<open>The batch a page request returned (empty when the request raised).\<close>

definition batch_of :: "exn + user list \<Rightarrow> user list" where
  "batch_of r = (case r of Inl e \<Rightarrow> [] | Inr batch \<Rightarrow> batch)"

text \<open>
  The pattern by positions: it matches at position \<open>i\<close> when an \<^verbatim>\<open>@\<close> stands there and
  the run of class characters taken after it is not empty; that run is group 1.
\<close>

definition group_at :: "string \<Rightarrow> nat \<Rightarrow> string" where
  "group_at s i = takeWhile is_host_char (drop (Suc i) s)"

definition match_at :: "string \<Rightarrow> nat \<Rightarrow> bool" where
  "match_at s i \<longleftrightarrow> i < length s \<and> s ! i = CHR ''@'' \<and> group_at s i \<noteq> []"

text \<open>
  The host as the specification words it, to be compared with \<open>search\<close>: the text
  following the first \<^verbatim>\<open>@\<close> of the email, as far as it consists of letters, digits, dots
  and hyphens; there is no host when the email has no \<^verbatim>\<open>@\<close> or that text is empty. And
  the set of the lower-cased hosts, so read, of the users whose email is non-empty and
  has one.
\<close>

definition host_after_first_at :: "string \<Rightarrow> string option" where
  "host_after_first_at s =
     (case dropWhile (\<lambda>c. c \<noteq> CHR ''@'') s of
        [] \<Rightarrow> None
      | at # rest \<Rightarrow>
          if takeWhile is_host_char rest = [] then None
          else Some (takeWhile is_host_char rest))"

definition first_at_domains :: "user list \<Rightarrow> string set" where
  "first_at_domains users =
     (\<lambda>u. lower (the (host_after_first_at (the (email u))))) `
       {u \<in> set users. truthy (email u) \<and> host_after_first_at (the (email u)) \<noteq> None}"

text \<open>
  A single-pass reference for \<open>extract_domains\<close>, written on its own, with none of the
  functions above: the class is the list of its characters, the host of an email is
  found by position (the first index that holds an \<^verbatim>\<open>@\<close> and is directly followed by a
  character of the class; from there the longest run of class characters), lower-casing
  maps each capital letter to the small one at the same place of the alphabet, and the
  line of a user is spelt out. One traversal, in sequence order, adds the lower-cased host
  of each matching email to the set, writes the line of each user with a non-empty email,
  and counts the others; a failing \<^verbatim>\<open>write\<close> ends it.
\<close>

definition class_chars :: string where
  "class_chars = ''abcdefghijklmnopqrstuvwxyzABCDEFGHIJKLMNOPQRSTUVWXYZ0123456789.-''"

definition reference_match :: "string \<Rightarrow> nat \<Rightarrow> bool" where
  "reference_match s i \<longleftrightarrow>
     s ! i = CHR ''@'' \<and> Suc i < length s \<and> s ! Suc i \<in> set class_chars"

definition reference_host :: "string \<Rightarrow> string option" where
  "reference_host s =
     map_option (\<lambda>i. takeWhile (\<lambda>c. c \<in> set class_chars) (drop (Suc i) s))
       (find (reference_match s) [0..<length s])"

definition reference_lower :: "string \<Rightarrow> string" where
  "reference_lower s =
     map (\<lambda>c. case map_of (zip ''ABCDEFGHIJKLMNOPQRSTUVWXYZ'' ''abcdefghijklmnopqrstuvwxyz'') c of
                 Some d \<Rightarrow> d
               | None \<Rightarrow> c) s"

fun single_pass ::
  "env \<Rightarrow> user list \<Rightarrow> string set \<Rightarrow> string \<Rightarrow> nat \<Rightarrow> nat \<Rightarrow>
     exn option \<times> string set \<times> string \<times> nat" where
  "single_pass cfg [] domains content n skipped_users = (None, domains, content, skipped_users)"
| "single_pass cfg (u # rest) domains content n skipped_users =
     (case email u of
        None \<Rightarrow> single_pass cfg rest domains content n (skipped_users + 1)
      | Some e \<Rightarrow>
          if e = [] then single_pass cfg rest domains content n (skipped_users + 1)
          else
            (let domains' = (case reference_host e of
                               Some h \<Rightarrow> insert (reference_lower h) domains
                             | None \<Rightarrow> domains)
             in case write_exn cfg USERS_FILE n of
                  Some x \<Rightarrow> (Some x, domains', content, skipped_users)
                | None \<Rightarrow>
                    single_pass cfg rest domains'
                      (content @ username u @ '' - '' @ e @ ''\<newline>'') (n + 1) skipped_users))"

definition extract_domains_single_pass ::
  "env \<Rightarrow> user list \<Rightarrow> world \<Rightarrow> (exn + string set) \<times> world" where
  "extract_domains_single_pass cfg users w =
     (case open_exn cfg USERS_FILE of
        Some e \<Rightarrow> (Inl e, w)
      | None \<Rightarrow>
          (case single_pass cfg users {} [] 0 0 of
             (Some e, domains, content, skipped_users) \<Rightarrow>
               (Inl e, put_file USERS_FILE content w)
           | (None, domains, content, skipped_users) \<Rightarrow>
               (Inr domains, logging (Skipped skipped_users) (put_file USERS_FILE content w))))"

subsection \<open>Example inputs\<close>

text \<open>
  An environment in which no file operation fails, with a given answer to \<^verbatim>\<open>gl.auth()\<close>
  and a given user listing; a listing that serves a fixed sequence of pages and empty
  pages after them; a world in which nothing has happened yet.
\<close>

definition example_env :: "exn option \<Rightarrow> (nat \<Rightarrow> nat \<Rightarrow> exn + user list) \<Rightarrow> env" where
  "example_env a src =
     \<lparr>cli_url = Some ''https://gitlab.example.com'', cli_token = Some ''glpat-x'',
      env_url = None, env_token = None, auth_exn = a, users_list = src,
      open_exn = (\<lambda>p. None), write_exn = (\<lambda>p n. None)\<rparr>"

definition serve_pages :: "user list list \<Rightarrow> nat \<Rightarrow> nat \<Rightarrow> exn + user list" where
  "serve_pages pages per_page page =
     (if 1 \<le> page \<and> page \<le> length pages then Inr (pages ! (page - 1)) else Inr [])"

definition empty_world :: world where
  "empty_world = \<lparr>api_calls = [], logged = [], files = (\<lambda>p. None)\<rparr>"

definition mk_user :: "string \<Rightarrow> string option \<Rightarrow> user" where
  "mk_user n e = \<lparr>username = n, email = e\<rparr>"

definition example_users :: "user list" where
  "example_users =
     [mk_user ''alice'' (Some ''a@Example.com''), mk_user ''bob'' (Some ''b@EXAMPLE.COM''),
      mk_user ''carol'' (Some ''c@other.org''), mk_user ''dave'' None,
      mk_user ''erin'' (Some []), mk_user ''frank'' (Some ''not-an-email'')]"

definition quiet_env :: env where
  "quiet_env = example_env None (serve_pages [])"

text \<open>An environment in which the second \<^verbatim>\<open>write\<close> on the per-user file fails.\<close>

definition second_write_fails_env :: env where
  "second_write_fails_env =
     quiet_env\<lparr>write_exn := (\<lambda>p n. if p = USERS_FILE \<and> n = 1 then Some IOError else None)\<rparr>"

text \<open>An environment that serves the example users and refuses to open the domains file.\<close>

definition unwritable_domains_env :: env where
  "unwritable_domains_env =
     (example_env None (serve_pages [example_users]))
       \<lparr>open_exn := (\<lambda>p. if p = DOMAINS_FILE then Some IOError else None)\<rparr>"

section \<open>Properties\<close>

subsection \<open>The world after an operation\<close>

lemma api_calls_simps [simp]:
  "api_calls (call c w) = api_calls w @ [c]"
  "api_calls (logging m w) = api_calls w"
  "api_calls (put_file p s w) = api_calls w"
  by (simp_all add: call_def logging_def put_file_def)

lemma logged_simps [simp]:
  "logged (call c w) = logged w"
  "logged (logging m w) = logged w @ [m]"
  "logged (put_file p s w) = logged w"
  by (simp_all add: call_def logging_def put_file_def)

lemma files_simps [simp]:
  "files (call c w) = files w"
  "files (logging m w) = files w"
  "files (put_file p s w) = (files w)(p \<mapsto> s)"
  by (simp_all add: call_def logging_def put_file_def)

lemma fold_call [simp]:
  "api_calls (fold call cs w) = api_calls w @ cs"
  "logged (fold call cs w) = logged w"
  "files (fold call cs w) = files w"
  by (induction cs arbitrary: w) simp_all

subsection \<open>The pagination loop\<close>

lemma get_users_loop_nonempty:
  "users_list cfg 100 page = Inr b \<Longrightarrow> b \<noteq> [] \<Longrightarrow>
     get_users_loop cfg users page w =
       get_users_loop cfg (users @ b) (Suc page) (call (UsersList 100 page) w)"
  by (subst get_users_loop.simps) simp

lemma get_users_loop_empty:
  "users_list cfg 100 page = Inr [] \<Longrightarrow>
     get_users_loop cfg users page w = Some (Inr users, call (UsersList 100 page) w)"
  by (subst get_users_loop.simps) simp

lemma get_users_loop_raises:
  "users_list cfg 100 page = Inl e \<Longrightarrow>
     get_users_loop cfg users page w = Some (Inl e, call (UsersList 100 page) w)"
  by (subst get_users_loop.simps) simp

lemma get_users_loop_stops:
  assumes "page \<le> m" and "users_list cfg 100 m = Inr []"
    and "\<And>j. page \<le> j \<Longrightarrow> j < m \<Longrightarrow> \<exists>b. users_list cfg 100 j = Inr b"
  shows "\<exists>k. page \<le> k \<and> k \<le> m \<and> users_list cfg 100 k = Inr [] \<and>
           (\<forall>j. page \<le> j \<and> j < k \<longrightarrow> users_list cfg 100 j \<noteq> Inr []) \<and>
           get_users_loop cfg users page w =
             Some (Inr (users @ concat (map (\<lambda>j. batch_of (users_list cfg 100 j)) [page..<k])),
                   fold call (map (UsersList 100) [page..<Suc k]) w)"
  using assms
proof (induction "m - page" arbitrary: page users w)
  case 0
  then have "page = m" by simp
  with 0 show ?case
    by (intro exI[of _ m]) (auto simp: get_users_loop.simps[of cfg users m w])
next
  case (Suc d)
  then have lt: "page < m" by simp
  with Suc.prems(3)[of page] obtain b where b: "users_list cfg 100 page = Inr b" by auto
  show ?case
  proof (cases "b = []")
    case True
    with b lt show ?thesis
      by (intro exI[of _ page]) (auto simp: get_users_loop.simps[of cfg users page w])
  next
    case False
    have "d = m - Suc page" using Suc.hyps(2) by simp
    moreover have "Suc page \<le> m" using lt by simp
    moreover have "\<And>j. Suc page \<le> j \<Longrightarrow> j < m \<Longrightarrow> \<exists>b. users_list cfg 100 j = Inr b"
      using Suc.prems(3) by simp
    ultimately obtain k where k: "Suc page \<le> k" "k \<le> m" "users_list cfg 100 k = Inr []"
      "\<forall>j. Suc page \<le> j \<and> j < k \<longrightarrow> users_list cfg 100 j \<noteq> Inr []"
      "get_users_loop cfg (users @ b) (Suc page) (call (UsersList 100 page) w) =
         Some (Inr ((users @ b) @ concat (map (\<lambda>j. batch_of (users_list cfg 100 j)) [Suc page..<k])),
               fold call (map (UsersList 100) [Suc page..<Suc k]) (call (UsersList 100 page) w))"
      using Suc.hyps(1)[of "Suc page" "users @ b" "call (UsersList 100 page) w"] Suc.prems(2)
      by blast
    have 1: "[page..<k] = page # [Suc page..<k]" using k(1) by (simp add: upt_conv_Cons)
    have 2: "[page..<Suc k] = page # [Suc page..<Suc k]" using k(1) by (simp add: upt_conv_Cons)
    have nonempty: "\<forall>j. page \<le> j \<and> j < k \<longrightarrow> users_list cfg 100 j \<noteq> Inr []"
    proof (intro allI impI)
      fix j assume j: "page \<le> j \<and> j < k"
      show "users_list cfg 100 j \<noteq> Inr []"
      proof (cases "j = page")
        case True
        then show ?thesis using b False by simp
      next
        case False
        then show ?thesis using j k(4) by simp
      qed
    qed
    have "get_users_loop cfg users page w =
            Some (Inr (users @ concat (map (\<lambda>j. batch_of (users_list cfg 100 j)) [page..<k])),
                  fold call (map (UsersList 100) [page..<Suc k]) w)"
      unfolding 1 2 using b False k(5)
      by (simp add: get_users_loop.simps[of cfg users page w] batch_of_def)
    with k(1,2,3) nonempty show ?thesis
      by (intro exI[of _ k]) simp
  qed
qed

lemma get_users_stops:
  assumes "1 \<le> m" and "users_list cfg 100 m = Inr []"
    and "\<And>j. 1 \<le> j \<Longrightarrow> j < m \<Longrightarrow> \<exists>b. users_list cfg 100 j = Inr b"
  shows "\<exists>k. 1 \<le> k \<and> k \<le> m \<and> users_list cfg 100 k = Inr [] \<and>
           (\<forall>j. 1 \<le> j \<and> j < k \<longrightarrow> users_list cfg 100 j \<noteq> Inr []) \<and>
           get_users cfg w =
             Some (Inr (concat (map (\<lambda>j. batch_of (users_list cfg 100 j)) [1..<k])),
                   logging (TotalUsers (length (concat (map (\<lambda>j. batch_of (users_list cfg 100 j)) [1..<k]))))
                     (fold call (map (UsersList 100) [1..<Suc k]) (logging FetchingUsers w)))"
proof -
  from get_users_loop_stops[OF assms(1,2), of "[]" "logging FetchingUsers w"] assms(3)
  obtain k where k: "1 \<le> k" "k \<le> m" "users_list cfg 100 k = Inr []"
    "\<forall>j. 1 \<le> j \<and> j < k \<longrightarrow> users_list cfg 100 j \<noteq> Inr []"
    "get_users_loop cfg [] 1 (logging FetchingUsers w) =
       Some (Inr ([] @ concat (map (\<lambda>j. batch_of (users_list cfg 100 j)) [1..<k])),
             fold call (map (UsersList 100) [1..<Suc k]) (logging FetchingUsers w))"
    by blast
  show ?thesis
    using k by (intro exI[of _ k]) (simp add: get_users_def)
qed

text \<open>
  C5. When the listing raises nowhere before some empty page \<open>m\<close>, \<open>get_users\<close> returns:
  there is a first empty page \<open>k\<close>, the requests issued are exactly those for the pages
  \<open>1, \<dots>, k\<close> in this order, each with \<^verbatim>\<open>per_page=100\<close>, and the result is the
  concatenation of the pages before \<open>k\<close>. With pages of sizes 100, 100, 37 and 0 the
  function issues the four requests for the pages 1 to 4 and returns 237 records.
\<close>

theorem get_users_stops_at_first_empty_page:
  "(1 \<le> m \<and> users_list cfg 100 m = Inr [] \<and>
    (\<forall>j. 1 \<le> j \<and> j < m \<longrightarrow> (\<exists>b. users_list cfg 100 j = Inr b))
    \<longrightarrow> (\<exists>k w'. 1 \<le> k \<and> k \<le> m \<and> users_list cfg 100 k = Inr [] \<and>
           (\<forall>j. 1 \<le> j \<and> j < k \<longrightarrow> users_list cfg 100 j \<noteq> Inr []) \<and>
           get_users cfg w =
             Some (Inr (concat (map (\<lambda>j. batch_of (users_list cfg 100 j)) [1..<k])), w') \<and>
           api_calls w' = api_calls w @ map (UsersList 100) [1..<Suc k]))
   \<and> (users_list cfg 100 1 = Inr b1 \<and> length b1 = 100 \<and>
      users_list cfg 100 2 = Inr b2 \<and> length b2 = 100 \<and>
      users_list cfg 100 3 = Inr b3 \<and> length b3 = 37 \<and>
      users_list cfg 100 4 = Inr []
      \<longrightarrow> (\<exists>w'. get_users cfg w = Some (Inr (b1 @ b2 @ b3), w') \<and> length (b1 @ b2 @ b3) = 237 \<and>
            api_calls w' = api_calls w @
              [UsersList 100 1, UsersList 100 2, UsersList 100 3, UsersList 100 4]))"
proof (intro conjI impI)
  assume a: "1 \<le> m \<and> users_list cfg 100 m = Inr [] \<and>
    (\<forall>j. 1 \<le> j \<and> j < m \<longrightarrow> (\<exists>b. users_list cfg 100 j = Inr b))"
  from get_users_stops[of m cfg w] a
  obtain k where k: "1 \<le> k" "k \<le> m" "users_list cfg 100 k = Inr []"
    "\<forall>j. 1 \<le> j \<and> j < k \<longrightarrow> users_list cfg 100 j \<noteq> Inr []"
    "get_users cfg w =
             Some (Inr (concat (map (\<lambda>j. batch_of (users_list cfg 100 j)) [1..<k])),
                   logging (TotalUsers (length (concat (map (\<lambda>j. batch_of (users_list cfg 100 j)) [1..<k]))))
                     (fold call (map (UsersList 100) [1..<Suc k]) (logging FetchingUsers w)))"
    by blast
  show "\<exists>k w'. 1 \<le> k \<and> k \<le> m \<and> users_list cfg 100 k = Inr [] \<and>
           (\<forall>j. 1 \<le> j \<and> j < k \<longrightarrow> users_list cfg 100 j \<noteq> Inr []) \<and>
           get_users cfg w =
             Some (Inr (concat (map (\<lambda>j. batch_of (users_list cfg 100 j)) [1..<k])), w') \<and>
           api_calls w' = api_calls w @ map (UsersList 100) [1..<Suc k]"
    using k by (intro exI[of _ k]) simp
next
  assume a: "users_list cfg 100 1 = Inr b1 \<and> length b1 = 100 \<and>
      users_list cfg 100 2 = Inr b2 \<and> length b2 = 100 \<and>
      users_list cfg 100 3 = Inr b3 \<and> length b3 = 37 \<and>
      users_list cfg 100 4 = Inr []"
  then have ne: "b1 \<noteq> []" "b2 \<noteq> []" "b3 \<noteq> []" by auto
  have p: "users_list cfg 100 1 = Inr b1" "users_list cfg 100 (Suc 1) = Inr b2"
    "users_list cfg 100 (Suc (Suc 1)) = Inr b3" "users_list cfg 100 (Suc (Suc (Suc 1))) = Inr []"
    using a by (simp_all add: eval_nat_numeral)
  let ?w0 = "logging FetchingUsers w"
  let ?w1 = "call (UsersList 100 1) ?w0"
  let ?w2 = "call (UsersList 100 (Suc 1)) ?w1"
  let ?w3 = "call (UsersList 100 (Suc (Suc 1))) ?w2"
  have "get_users_loop cfg [] 1 ?w0 = get_users_loop cfg ([] @ b1) (Suc 1) ?w1"
    by (rule get_users_loop_nonempty[OF p(1) ne(1)])
  also have "\<dots> = get_users_loop cfg (([] @ b1) @ b2) (Suc (Suc 1)) ?w2"
    by (rule get_users_loop_nonempty[OF p(2) ne(2)])
  also have "\<dots> = get_users_loop cfg ((([] @ b1) @ b2) @ b3) (Suc (Suc (Suc 1))) ?w3"
    by (rule get_users_loop_nonempty[OF p(3) ne(3)])
  also have "\<dots> = Some (Inr ((([] @ b1) @ b2) @ b3), call (UsersList 100 (Suc (Suc (Suc 1)))) ?w3)"
    by (rule get_users_loop_empty[OF p(4)])
  finally have "get_users_loop cfg [] 1 (logging FetchingUsers w) =
          Some (Inr (b1 @ b2 @ b3),
                call (UsersList 100 4) (call (UsersList 100 3) (call (UsersList 100 2)
                  (call (UsersList 100 1) (logging FetchingUsers w)))))"
    by (simp add: eval_nat_numeral)
  then show "\<exists>w'. get_users cfg w = Some (Inr (b1 @ b2 @ b3), w') \<and> length (b1 @ b2 @ b3) = 237 \<and>
            api_calls w' = api_calls w @
              [UsersList 100 1, UsersList 100 2, UsersList 100 3, UsersList 100 4]"
    using a by (simp add: get_users_def)
qed

theorem get_users_stops_at_first_empty_page_witness:
  "(\<exists>k w'. 1 \<le> k \<and> k \<le> 4 \<and>
      users_list (example_env None (serve_pages
            [replicate 100 (mk_user ''a'' None), replicate 100 (mk_user ''b'' None),
             replicate 37 (mk_user ''c'' None)])) 100 k = Inr [] \<and>
      get_users (example_env None (serve_pages
            [replicate 100 (mk_user ''a'' None), replicate 100 (mk_user ''b'' None),
             replicate 37 (mk_user ''c'' None)])) empty_world =
        Some (Inr (concat (map (\<lambda>j. batch_of (users_list (example_env None (serve_pages
            [replicate 100 (mk_user ''a'' None), replicate 100 (mk_user ''b'' None),
             replicate 37 (mk_user ''c'' None)])) 100 j)) [1..<k])), w') \<and>
      api_calls w' = api_calls empty_world @ map (UsersList 100) [1..<Suc k])
   \<and> (\<exists>w'. get_users (example_env None (serve_pages
            [replicate 100 (mk_user ''a'' None), replicate 100 (mk_user ''b'' None),
             replicate 37 (mk_user ''c'' None)])) empty_world
         = Some (Inr (replicate 100 (mk_user ''a'' None) @ replicate 100 (mk_user ''b'' None) @
                      replicate 37 (mk_user ''c'' None)), w') \<and>
         api_calls w' = [UsersList 100 1, UsersList 100 2, UsersList 100 3, UsersList 100 4])"
proof -
  let ?E = "example_env None (serve_pages
            [replicate 100 (mk_user ''a'' None), replicate 100 (mk_user ''b'' None),
             replicate 37 (mk_user ''c'' None)])"
  note t = get_users_stops_at_first_empty_page
    [of 4 ?E empty_world
        "replicate 100 (mk_user ''a'' None)" "replicate 100 (mk_user ''b'' None)"
        "replicate 37 (mk_user ''c'' None)"]
  have a: "1 \<le> (4::nat) \<and> users_list ?E 100 4 = Inr [] \<and>
    (\<forall>j. 1 \<le> j \<and> j < 4 \<longrightarrow> (\<exists>b. users_list ?E 100 j = Inr b))"
    by (simp add: example_env_def serve_pages_def)
  have b: "users_list ?E 100 1 = Inr (replicate 100 (mk_user ''a'' None)) \<and>
      length (replicate 100 (mk_user ''a'' None)) = 100 \<and>
      users_list ?E 100 2 = Inr (replicate 100 (mk_user ''b'' None)) \<and>
      length (replicate 100 (mk_user ''b'' None)) = 100 \<and>
      users_list ?E 100 3 = Inr (replicate 37 (mk_user ''c'' None)) \<and>
      length (replicate 37 (mk_user ''c'' None)) = 37 \<and>
      users_list ?E 100 4 = Inr []"
    by (simp add: example_env_def serve_pages_def)
  have e: "api_calls empty_world = []" by (simp add: empty_world_def)
  from t[THEN conjunct1, THEN mp, OF a] t[THEN conjunct2, THEN mp, OF b] e
  show ?thesis by (auto simp del: upt_Suc)
qed

subsection \<open>extract_domains\<close>

paragraph \<open>The pattern\<close>

lemma match_at_Cons_Suc: "match_at (c # cs) (Suc i) \<longleftrightarrow> match_at cs i"
  by (simp add: match_at_def group_at_def)

lemma match_at_Cons_0:
  "match_at (c # cs) 0 \<longleftrightarrow> c = CHR ''@'' \<and> takeWhile is_host_char cs \<noteq> []"
  by (simp add: match_at_def group_at_def)

lemma search_leftmost:
  "search s = (if \<exists>i. match_at s i then Some (group_at s (LEAST i. match_at s i)) else None)"
proof (induction s)
  case Nil
  show ?case by (simp add: match_at_def)
next
  case (Cons c cs)
  show ?case
  proof (cases "match_at (c # cs) 0")
    case True
    then have "(LEAST i. match_at (c # cs) i) = 0" by (intro Least_equality) simp_all
    moreover have "\<exists>i. match_at (c # cs) i" using True ..
    moreover from True have "c = CHR ''@''" "takeWhile is_host_char cs \<noteq> []"
      by (simp_all add: match_at_Cons_0)
    ultimately show ?thesis
      by (simp add: group_at_def)
  next
    case no0: False
    then have s: "search (c # cs) = search cs" by (auto simp: match_at_Cons_0)
    show ?thesis
    proof (cases "\<exists>i. match_at cs i")
      case True
      then obtain i where i: "match_at cs i" ..
      then have ex: "match_at (c # cs) (Suc i)" by (simp add: match_at_Cons_Suc)
      have "(LEAST i. match_at (c # cs) i) = Suc (LEAST i. match_at (c # cs) (Suc i))"
        using ex no0 by (rule Least_Suc)
      then have "(LEAST i. match_at (c # cs) i) = Suc (LEAST i. match_at cs i)"
        by (simp add: match_at_Cons_Suc)
      moreover have "\<exists>i. match_at (c # cs) i" using ex ..
      ultimately show ?thesis using s Cons.IH True by (simp add: group_at_def)
    next
      case False
      have "\<not> (\<exists>i. match_at (c # cs) i)"
      proof
        assume "\<exists>i. match_at (c # cs) i"
        then obtain i where i: "match_at (c # cs) i" ..
        show False
        proof (cases i)
          case 0
          with i no0 show False by simp
        next
          case (Suc j)
          with i False show False by (simp add: match_at_Cons_Suc)
        qed
      qed
      with s Cons.IH False show ?thesis by simp
    qed
  qed
qed

lemma group_at_class: "c \<in> set (group_at s i) \<Longrightarrow> is_host_char c"
  by (auto simp: group_at_def dest: set_takeWhileD)

lemma match_at_split:
  assumes "match_at s i"
  shows "s = take i s @ CHR ''@'' # group_at s i @ dropWhile is_host_char (drop (Suc i) s)"
proof -
  from assms have i: "i < length s" "s ! i = CHR ''@''" by (simp_all add: match_at_def)
  then have "s = take i s @ CHR ''@'' # drop (Suc i) s"
    by (metis id_take_nth_drop)
  moreover have "drop (Suc i) s = group_at s i @ dropWhile is_host_char (drop (Suc i) s)"
    by (simp add: group_at_def)
  ultimately show ?thesis by metis
qed

lemma search_Some_iff:
  "search s = Some g \<longleftrightarrow> (\<exists>i. match_at s i \<and> (\<forall>j<i. \<not> match_at s j) \<and> g = group_at s i)"
proof
  assume a: "search s = Some g"
  then have ex: "\<exists>i. match_at s i" and g: "g = group_at s (LEAST i. match_at s i)"
    by (auto simp: search_leftmost split: if_splits)
  from ex have "match_at s (LEAST i. match_at s i)" by (auto intro: LeastI)
  moreover have "\<forall>j<(LEAST i. match_at s i). \<not> match_at s j"
    using not_less_Least by blast
  ultimately show "\<exists>i. match_at s i \<and> (\<forall>j<i. \<not> match_at s j) \<and> g = group_at s i"
    using g by blast
next
  assume "\<exists>i. match_at s i \<and> (\<forall>j<i. \<not> match_at s j) \<and> g = group_at s i"
  then obtain i where i: "match_at s i" "\<forall>j<i. \<not> match_at s j" "g = group_at s i" by blast
  then have "(LEAST i. match_at s i) = i"
    by (intro Least_equality) (auto simp: not_less[symmetric])
  with i show "search s = Some g" by (auto simp: search_leftmost)
qed

lemma search_Some_shape:
  assumes "search s = Some g"
  shows "(\<exists>pre post. s = pre @ CHR ''@'' # g @ post) \<and> g \<noteq> [] \<and> list_all is_host_char g"
proof -
  from assms obtain i where i: "match_at s i" "g = group_at s i"
    by (auto simp: search_Some_iff)
  from match_at_split[OF i(1)] i(2) have "\<exists>pre post. s = pre @ CHR ''@'' # g @ post" by blast
  moreover have "g \<noteq> []" using i by (simp add: match_at_def)
  moreover have "list_all is_host_char g"
    using i(2) by (auto simp: list_all_iff dest: group_at_class)
  ultimately show ?thesis by blast
qed

lemma search_eq_host_after_first_at:
  assumes "case dropWhile (\<lambda>c. c \<noteq> CHR ''@'') s of
             [] \<Rightarrow> True
           | at # rest \<Rightarrow> takeWhile is_host_char rest \<noteq> []"
  shows "search s = host_after_first_at s"
  using assms
proof (induction s)
  case Nil
  show ?case by (simp add: host_after_first_at_def)
next
  case (Cons c cs)
  show ?case
  proof (cases "c = CHR ''@''")
    case True
    with Cons.prems show ?thesis by (simp add: host_after_first_at_def)
  next
    case False
    with Cons.prems have "search cs = host_after_first_at cs" by (intro Cons.IH) simp
    with False show ?thesis by (simp add: host_after_first_at_def)
  qed
qed

paragraph \<open>The set comprehension\<close>

lemma fold_add_domain:
  "fold add_domain users A =
     A \<union> {lower g |u g. u \<in> set users \<and> truthy (email u) \<and> search (the (email u)) = Some g}"
proof (induction users arbitrary: A)
  case Nil
  show ?case by simp
next
  case (Cons u us)
  show ?case
    unfolding fold_simps Cons.IH
    by (auto simp: add_domain_def split: option.splits)
qed

lemma domain_comprehension_eq:
  "domain_comprehension users =
     {lower g |u g. u \<in> set users \<and> truthy (email u) \<and> search (the (email u)) = Some g}"
  by (simp add: domain_comprehension_def fold_add_domain)

lemma finite_domain_comprehension: "finite (domain_comprehension users)"
proof -
  have "finite (fold add_domain users A)" if "finite A" for A
    using that by (induction users arbitrary: A) (auto simp: add_domain_def split: option.splits)
  then show ?thesis by (simp add: domain_comprehension_def)
qed

paragraph \<open>The loop writing the users\<close>

lemma write_users_returns:
  "fst (write_users cfg users content n sk) = None \<Longrightarrow>
     write_users cfg users content n sk =
       (None, content @ concat (map user_line (filter (\<lambda>u. truthy (email u)) users)),
        sk + length (filter (\<lambda>u. \<not> truthy (email u)) users))"
proof (induction users arbitrary: content n sk)
  case Nil
  then show ?case by simp
next
  case (Cons u rest)
  show ?case
  proof (cases "truthy (email u)")
    case True
    with Cons.prems obtain w: "write_exn cfg USERS_FILE n = None"
      and r: "fst (write_users cfg rest (content @ user_line u) (n + 1) sk) = None"
      by (cases "write_exn cfg USERS_FILE n") simp_all
    from Cons.IH[OF r] True w show ?thesis by simp
  next
    case False
    with Cons.prems have r: "fst (write_users cfg rest content n (sk + 1)) = None" by simp
    from Cons.IH[OF r] False show ?thesis by simp
  qed
qed

lemma write_users_no_fault:
  "\<forall>n. write_exn cfg USERS_FILE n = None \<Longrightarrow> fst (write_users cfg users content n sk) = None"
  by (induction users arbitrary: content n sk) auto

lemma extract_domains_Inr:
  assumes "fst (extract_domains cfg users w) = Inr domains"
  shows "extract_domains cfg users w =
           (Inr (domain_comprehension users),
            logging (Skipped (length (filter (\<lambda>u. \<not> truthy (email u)) users)))
              (put_file USERS_FILE
                 (concat (map user_line (filter (\<lambda>u. truthy (email u)) users))) w))"
proof -
  from assms have o: "open_exn cfg USERS_FILE = None"
    by (auto simp: extract_domains_def split: option.splits)
  obtain x c s where r: "write_users cfg users [] 0 0 = (x, c, s)"
    using prod_cases3 by blast
  with assms o have "x = None"
    by (cases x) (simp_all add: extract_domains_def)
  with r write_users_returns[of cfg users "[]" 0 0] o show ?thesis
    by (simp add: extract_domains_def)
qed

lemma extract_domains_no_fault:
  assumes "open_exn cfg USERS_FILE = None" and "\<forall>n. write_exn cfg USERS_FILE n = None"
  shows "\<exists>domains. fst (extract_domains cfg users w) = Inr domains"
proof -
  obtain x c s where r: "write_users cfg users [] 0 0 = (x, c, s)"
    using prod_cases3 by blast
  with write_users_no_fault[OF assms(2), of users "[]" 0 0] have "x = None" by simp
  with r assms(1) show ?thesis by (simp add: extract_domains_def)
qed

paragraph \<open>Facts on lists used for the single-pass reference\<close>

lemma all_chars:
  assumes "list_all P (Enum.enum :: char list)"
  shows "P c"
proof -
  have "c \<in> set (Enum.enum :: char list)" by (simp add: enum_UNIV)
  with assms show ?thesis by (simp add: list_all_iff)
qed

lemma find_map_comp: "find P (map f xs) = map_option f (find (P \<circ> f) xs)"
  by (induction xs) simp_all

lemma find_Cons_not: "\<not> P x \<Longrightarrow> find P (x # xs) = find P xs"
  by simp

lemma upt_0_Cons: "[0..<length (c # cs)] = 0 # map Suc [0..<length cs]"
  by (simp add: upt_conv_Cons map_Suc_upt del: upt_Suc)

lemma domain_comprehension_set_cong:
  "set users' = set users \<Longrightarrow> domain_comprehension users' = domain_comprehension users"
  by (simp add: domain_comprehension_eq)

text \<open>
  C1. Whenever \<open>extract_domains\<close> returns, the set it returns is the set of the
  lower-cased groups captured by the pattern in the emails of exactly the users whose
  email is non-empty and matches; it returns whenever no file operation fails; and two
  user lists that are permutations of each other give the same set. The group the pattern
  captures is the longest run of class characters (letters, digits, dots, hyphens)
  directly after the leftmost \<^verbatim>\<open>@\<close> that such a character directly follows, which need
  not be the first \<^verbatim>\<open>@\<close> of the email; it is never empty and stands after an \<^verbatim>\<open>@\<close>.
  It is the text following the first \<^verbatim>\<open>@\<close> whenever a class character directly follows
  the first \<^verbatim>\<open>@\<close>, and no email without an \<^verbatim>\<open>@\<close> matches.
\<close>

theorem extract_domains_domain_set:
  "(fst (extract_domains cfg users w) = Inr domains \<longrightarrow>
      domains = {lower g |u g. u \<in> set users \<and> truthy (email u) \<and> search (the (email u)) = Some g})
   \<and> (open_exn cfg USERS_FILE = None \<and> (\<forall>n. write_exn cfg USERS_FILE n = None) \<longrightarrow>
      (\<exists>returned. fst (extract_domains cfg users w) = Inr returned))
   \<and> (mset users' = mset users \<and> fst (extract_domains cfg users w) = Inr domains \<and>
      fst (extract_domains cfg' users' w') = Inr domains' \<longrightarrow> domains' = domains)
   \<and> (search s = Some g \<longleftrightarrow>
        (\<exists>i. match_at s i \<and> (\<forall>j<i. \<not> match_at s j) \<and> g = group_at s i))
   \<and> (search s = Some g \<longrightarrow>
        (\<exists>pre post. s = pre @ CHR ''@'' # g @ post) \<and> g \<noteq> [] \<and> list_all is_host_char g)
   \<and> ((case dropWhile (\<lambda>c. c \<noteq> CHR ''@'') s of
         [] \<Rightarrow> True
       | at # rest \<Rightarrow> takeWhile is_host_char rest \<noteq> []) \<longrightarrow>
      search s = host_after_first_at s)"
proof (intro conjI impI)
  assume "fst (extract_domains cfg users w) = Inr domains"
  from extract_domains_Inr[OF this] this
  show "domains = {lower g |u g. u \<in> set users \<and> truthy (email u) \<and> search (the (email u)) = Some g}"
    by (simp add: domain_comprehension_eq)
next
  assume "open_exn cfg USERS_FILE = None \<and> (\<forall>n. write_exn cfg USERS_FILE n = None)"
  then show "\<exists>returned. fst (extract_domains cfg users w) = Inr returned"
    by (simp add: extract_domains_no_fault)
next
  assume a: "mset users' = mset users \<and> fst (extract_domains cfg users w) = Inr domains \<and>
      fst (extract_domains cfg' users' w') = Inr domains'"
  then have "set users' = set users" by (metis set_mset_mset)
  then have "domain_comprehension users' = domain_comprehension users"
    by (rule domain_comprehension_set_cong)
  moreover from a extract_domains_Inr[of cfg users w domains]
  have "domains = domain_comprehension users" by simp
  moreover from a extract_domains_Inr[of cfg' users' w' domains']
  have "domains' = domain_comprehension users'" by simp
  ultimately show "domains' = domains" by simp
next
  show "search s = Some g \<longleftrightarrow>
        (\<exists>i. match_at s i \<and> (\<forall>j<i. \<not> match_at s j) \<and> g = group_at s i)"
    by (rule search_Some_iff)
next
  assume "search s = Some g"
  from search_Some_shape[OF this]
  show "\<exists>pre post. s = pre @ CHR ''@'' # g @ post" "g \<noteq> []" "list_all is_host_char g"
    by blast+
next
  assume "case dropWhile (\<lambda>c. c \<noteq> CHR ''@'') s of
         [] \<Rightarrow> True
       | at # rest \<Rightarrow> takeWhile is_host_char rest \<noteq> []"
  then show "search s = host_after_first_at s"
    by (rule search_eq_host_after_first_at)
qed

theorem extract_domains_domain_set_witness:
  "fst (extract_domains quiet_env example_users empty_world) = Inr {''example.com'', ''other.org''}
   \<and> {''example.com'', ''other.org''} =
       {lower g |u g. u \<in> set example_users \<and> truthy (email u) \<and> search (the (email u)) = Some g}
   \<and> mset (rev example_users) = mset example_users
   \<and> fst (extract_domains quiet_env (rev example_users) empty_world) =
       Inr {''example.com'', ''other.org''}
   \<and> search ''a@Example.com'' = Some ''Example.com''
   \<and> (\<exists>pre post. ''a@Example.com'' = pre @ CHR ''@'' # ''Example.com'' @ post)
   \<and> search ''a@Example.com'' = host_after_first_at ''a@Example.com''"
proof -
  note t = extract_domains_domain_set
             [of quiet_env example_users empty_world "{''example.com'', ''other.org''}"
                 "rev example_users" quiet_env empty_world _ "''a@Example.com''" "''Example.com''"]
  have h: "fst (extract_domains quiet_env example_users empty_world) =
             Inr {''example.com'', ''other.org''}"
    by code_simp
  have f: "open_exn quiet_env USERS_FILE = None \<and> (\<forall>n. write_exn quiet_env USERS_FILE n = None)"
    by (simp add: quiet_env_def example_env_def)
  have p: "mset (rev example_users) = mset example_users" by simp
  from t[THEN conjunct2, THEN conjunct1, THEN mp, OF f]
  have e: "\<exists>returned. fst (extract_domains quiet_env example_users empty_world) = Inr returned" .
  have r': "fst (extract_domains quiet_env (rev example_users) empty_world) =
       Inr {''example.com'', ''other.org''}"
    by code_simp
  have s: "search ''a@Example.com'' = Some ''Example.com''" by code_simp
  have c: "case dropWhile (\<lambda>c. c \<noteq> CHR ''@'') ''a@Example.com'' of
         [] \<Rightarrow> True
       | at # rest \<Rightarrow> takeWhile is_host_char rest \<noteq> []"
    by code_simp
  from t[THEN conjunct1, THEN mp, OF h]
       t[THEN conjunct2, THEN conjunct2, THEN conjunct2, THEN conjunct2, THEN conjunct1, THEN mp, OF s]
       t[THEN conjunct2, THEN conjunct2, THEN conjunct2, THEN conjunct2, THEN conjunct2, THEN mp, OF c]
       h p r' s
  show ?thesis by blast
qed

text \<open>
  The host is not always the text following the first \<^verbatim>\<open>@\<close>: in \<^verbatim>\<open>a@@b.com\<close> no
  class character follows the first \<^verbatim>\<open>@\<close>, the pattern matches at the second one, and
  the domain set is \<^verbatim>\<open>{b.com}\<close>, where reading the host after the first \<^verbatim>\<open>@\<close> gives
  the empty set.
\<close>

theorem extract_domains_first_at_counterexample:
  "fst (extract_domains quiet_env [mk_user ''u'' (Some ''a@@b.com'')] empty_world) = Inr {''b.com''}
   \<and> search ''a@@b.com'' = Some ''b.com''
   \<and> host_after_first_at ''a@@b.com'' = None
   \<and> first_at_domains [mk_user ''u'' (Some ''a@@b.com'')] = {}
   \<and> fst (extract_domains quiet_env [mk_user ''u'' (Some ''a@@b.com'')] empty_world) \<noteq>
       Inr (first_at_domains [mk_user ''u'' (Some ''a@@b.com'')])"
  by code_simp

text \<open>
  C2. Whenever \<open>extract_domains\<close> returns, the content of the per-user file is the
  concatenation, in the order of the user list, of one line
  \<^verbatim>\<open><username> - <email>\<close> ended by a newline for each user whose email is non-empty;
  users whose email is \<^verbatim>\<open>None\<close> or empty contribute nothing. It returns whenever no
  file operation fails.
\<close>

theorem extract_domains_users_file:
  "(fst (extract_domains cfg users w) = Inr domains \<longrightarrow>
      files (snd (extract_domains cfg users w)) USERS_FILE =
        Some (concat (map (\<lambda>u. username u @ '' - '' @ the (email u) @ ''\<newline>'')
                          (filter (\<lambda>u. truthy (email u)) users))))
   \<and> (open_exn cfg USERS_FILE = None \<and> (\<forall>n. write_exn cfg USERS_FILE n = None) \<longrightarrow>
      (\<exists>returned. fst (extract_domains cfg users w) = Inr returned))"
proof (intro conjI impI)
  assume "fst (extract_domains cfg users w) = Inr domains"
  from extract_domains_Inr[OF this]
  show "files (snd (extract_domains cfg users w)) USERS_FILE =
        Some (concat (map (\<lambda>u. username u @ '' - '' @ the (email u) @ ''\<newline>'')
                          (filter (\<lambda>u. truthy (email u)) users)))"
    by (simp add: user_line_def[abs_def])
next
  assume "open_exn cfg USERS_FILE = None \<and> (\<forall>n. write_exn cfg USERS_FILE n = None)"
  then show "\<exists>returned. fst (extract_domains cfg users w) = Inr returned"
    by (simp add: extract_domains_no_fault)
qed

theorem extract_domains_users_file_witness:
  "fst (extract_domains quiet_env example_users empty_world) = Inr {''example.com'', ''other.org''}
   \<and> files (snd (extract_domains quiet_env example_users empty_world)) USERS_FILE =
        Some (concat (map (\<lambda>u. username u @ '' - '' @ the (email u) @ ''\<newline>'')
                          (filter (\<lambda>u. truthy (email u)) example_users)))
   \<and> concat (map (\<lambda>u. username u @ '' - '' @ the (email u) @ ''\<newline>'')
                          (filter (\<lambda>u. truthy (email u)) example_users)) =
       ''alice - a@Example.com\<newline>bob - b@EXAMPLE.COM\<newline>carol - c@other.org\<newline>frank - not-an-email\<newline>''"
proof -
  have h: "fst (extract_domains quiet_env example_users empty_world) =
             Inr {''example.com'', ''other.org''}"
    by code_simp
  have c: "concat (map (\<lambda>u. username u @ '' - '' @ the (email u) @ ''\<newline>'')
                          (filter (\<lambda>u. truthy (email u)) example_users)) =
       ''alice - a@Example.com\<newline>bob - b@EXAMPLE.COM\<newline>carol - c@other.org\<newline>frank - not-an-email\<newline>''"
    by code_simp
  from extract_domains_users_file[of quiet_env example_users empty_world
         "{''example.com'', ''other.org''}", THEN conjunct1, THEN mp, OF h]
  show ?thesis using h c by blast
qed

text \<open>
  C3. Whenever \<open>extract_domains\<close> returns, the skip counter it reports is the number of
  users whose email is falsy (\<^verbatim>\<open>None\<close> or empty). A user \<open>u\<close> whose email is non-empty
  but does not match the pattern is not counted, adds nothing to the domain set, and has
  its line in the per-user file at its place. The string \<^verbatim>\<open>not-an-email\<close> is such an
  email.
\<close>

theorem extract_domains_skip_counter:
  "(fst (extract_domains cfg users w) = Inr domains \<longrightarrow>
      logged (snd (extract_domains cfg users w)) =
        logged w @ [Skipped (length (filter (\<lambda>u. \<not> truthy (email u)) users))])
   \<and> (truthy (email u) \<and> search (the (email u)) = None \<and>
      fst (extract_domains cfg (xs @ u # ys) w) = Inr domains \<longrightarrow>
        logged (snd (extract_domains cfg (xs @ u # ys) w)) =
          logged w @ [Skipped (length (filter (\<lambda>u. \<not> truthy (email u)) (xs @ ys)))] \<and>
        domains = {lower g |v g. v \<in> set (xs @ ys) \<and> truthy (email v) \<and>
                                  search (the (email v)) = Some g} \<and>
        files (snd (extract_domains cfg (xs @ u # ys) w)) USERS_FILE =
          Some (concat (map user_line (filter (\<lambda>u. truthy (email u)) xs)) @
                (username u @ '' - '' @ the (email u) @ ''\<newline>'') @
                concat (map user_line (filter (\<lambda>u. truthy (email u)) ys))))
   \<and> truthy (Some ''not-an-email'') \<and> search ''not-an-email'' = None"
proof (intro conjI impI)
  assume "fst (extract_domains cfg users w) = Inr domains"
  from extract_domains_Inr[OF this]
  show "logged (snd (extract_domains cfg users w)) =
        logged w @ [Skipped (length (filter (\<lambda>u. \<not> truthy (email u)) users))]"
    by simp
next
  assume a: "truthy (email u) \<and> search (the (email u)) = None \<and>
      fst (extract_domains cfg (xs @ u # ys) w) = Inr domains"
  then have r: "fst (extract_domains cfg (xs @ u # ys) w) = Inr domains" by simp
  note e = extract_domains_Inr[OF r]
  from e a show "logged (snd (extract_domains cfg (xs @ u # ys) w)) =
          logged w @ [Skipped (length (filter (\<lambda>u. \<not> truthy (email u)) (xs @ ys)))]"
    by simp
  from e r have "domains = domain_comprehension (xs @ u # ys)" by simp
  with a show "domains = {lower g |v g. v \<in> set (xs @ ys) \<and> truthy (email v) \<and>
                                  search (the (email v)) = Some g}"
    by (auto simp: domain_comprehension_eq)
  from e a show "files (snd (extract_domains cfg (xs @ u # ys) w)) USERS_FILE =
          Some (concat (map user_line (filter (\<lambda>u. truthy (email u)) xs)) @
                (username u @ '' - '' @ the (email u) @ ''\<newline>'') @
                concat (map user_line (filter (\<lambda>u. truthy (email u)) ys)))"
    by (simp add: user_line_def)
next
  show "truthy (Some ''not-an-email'')" by simp
  show "search ''not-an-email'' = None" by simp
qed

theorem extract_domains_skip_counter_witness:
  "fst (extract_domains quiet_env example_users empty_world) = Inr {''example.com'', ''other.org''}
   \<and> logged (snd (extract_domains quiet_env example_users empty_world)) =
        logged empty_world @ [Skipped (length (filter (\<lambda>u. \<not> truthy (email u)) example_users))]
   \<and> length (filter (\<lambda>u. \<not> truthy (email u)) example_users) = 2
   \<and> example_users = butlast example_users @ mk_user ''frank'' (Some ''not-an-email'') # []
   \<and> length (filter (\<lambda>u. \<not> truthy (email u)) (butlast example_users @ [])) = 2
   \<and> files (snd (extract_domains quiet_env example_users empty_world)) USERS_FILE =
        Some (concat (map user_line (filter (\<lambda>u. truthy (email u)) (butlast example_users))) @
              ''frank - not-an-email\<newline>'')"
proof -
  let ?u = "mk_user ''frank'' (Some ''not-an-email'')"
  have h: "fst (extract_domains quiet_env example_users empty_world) =
             Inr {''example.com'', ''other.org''}"
    by code_simp
  have c: "length (filter (\<lambda>u. \<not> truthy (email u)) example_users) = 2"
    by code_simp
  have x: "example_users = butlast example_users @ ?u # []"
    by (simp add: example_users_def)
  have c': "length (filter (\<lambda>u. \<not> truthy (email u)) (butlast example_users @ [])) = 2"
    by code_simp
  have m: "truthy (email ?u) \<and> search (the (email ?u)) = None \<and>
      fst (extract_domains quiet_env (butlast example_users @ ?u # []) empty_world) =
        Inr {''example.com'', ''other.org''}"
    using h x by (simp add: mk_user_def)
  note t = extract_domains_skip_counter
             [of quiet_env example_users empty_world "{''example.com'', ''other.org''}"
                 ?u "butlast example_users" "[]"]
  from t[THEN conjunct2, THEN conjunct1, THEN mp, OF m]
  have "files (snd (extract_domains quiet_env (butlast example_users @ ?u # []) empty_world))
          USERS_FILE =
        Some (concat (map user_line (filter (\<lambda>u. truthy (email u)) (butlast example_users))) @
              (username ?u @ '' - '' @ the (email ?u) @ ''\<newline>'') @
              concat (map user_line (filter (\<lambda>u. truthy (email u)) [])))"
    by blast
  then have f: "files (snd (extract_domains quiet_env example_users empty_world)) USERS_FILE =
        Some (concat (map user_line (filter (\<lambda>u. truthy (email u)) (butlast example_users))) @
              ''frank - not-an-email\<newline>'')"
    using x by (simp add: mk_user_def)
  from t[THEN conjunct1, THEN mp, OF h] h c x c' f
  show ?thesis by blast
qed

text \<open>
  C8. \<open>extract_domains\<close>, which builds the set in a comprehension and then writes the
  lines in a second loop over the same list, has in every environment and for every user
  list the outcome of the single-pass reference: the same returned set or raised exception,
  the same content of the per-user file, the same reported skip counter. When no file
  operation fails it returns the set, writes the content and reports the counter that the
  one traversal of the reference computes.
\<close>

theorem extract_domains_is_single_pass:
  "extract_domains cfg users w = extract_domains_single_pass cfg users w
   \<and> (open_exn cfg USERS_FILE = None \<and> (\<forall>n. write_exn cfg USERS_FILE n = None) \<longrightarrow>
      (\<exists>domains content skipped_users.
         single_pass cfg users {} [] 0 0 = (None, domains, content, skipped_users) \<and>
         extract_domains cfg users w =
           (Inr domains, logging (Skipped skipped_users) (put_file USERS_FILE content w))))"
proof -
  \<comment> \<open>the class, lower-casing and the host of the reference are those of the code\<close>
  have cls: "is_host_char c \<longleftrightarrow> c \<in> set class_chars" for c
  proof (rule all_chars[where P = "\<lambda>c. is_host_char c \<longleftrightarrow> c \<in> set class_chars"])
    show "list_all (\<lambda>c. is_host_char c \<longleftrightarrow> c \<in> set class_chars) Enum.enum"
      by code_simp
  qed
  have low_char: "lower_char c =
     (case map_of (zip ''ABCDEFGHIJKLMNOPQRSTUVWXYZ'' ''abcdefghijklmnopqrstuvwxyz'') c of
        Some d \<Rightarrow> d
      | None \<Rightarrow> c)" for c
  proof (rule all_chars[where P = "\<lambda>c. lower_char c =
     (case map_of (zip ''ABCDEFGHIJKLMNOPQRSTUVWXYZ'' ''abcdefghijklmnopqrstuvwxyz'') c of
        Some d \<Rightarrow> d
      | None \<Rightarrow> c)"])
    show "list_all (\<lambda>c. lower_char c =
     (case map_of (zip ''ABCDEFGHIJKLMNOPQRSTUVWXYZ'' ''abcdefghijklmnopqrstuvwxyz'') c of
        Some d \<Rightarrow> d
      | None \<Rightarrow> c)) Enum.enum"
      by code_simp
  qed
  have low: "reference_lower s = lower s" for s
    by (simp add: reference_lower_def lower_def low_char[abs_def])
  have run: "takeWhile (\<lambda>c. c \<in> set class_chars) cs = takeWhile is_host_char cs" for cs
    by (simp add: cls[abs_def])
  have m0: "reference_match (c # cs) 0 \<longleftrightarrow> c = CHR ''@'' \<and> takeWhile is_host_char cs \<noteq> []"
    for c cs
    by (cases cs) (auto simp: reference_match_def cls)
  have mSuc: "reference_match (c # cs) \<circ> Suc = reference_match cs" for c cs
    by (auto simp: fun_eq_iff reference_match_def)
  have host: "reference_host s = search s" for s
  proof (induction s)
    case Nil
    show ?case by (simp add: reference_host_def)
  next
    case (Cons c cs)
    show ?case
    proof (cases "c = CHR ''@'' \<and> takeWhile is_host_char cs \<noteq> []")
      case True
      then have "reference_match (c # cs) 0" by (simp add: m0)
      then have "find (reference_match (c # cs)) [0..<length (c # cs)] = Some 0"
        unfolding upt_0_Cons by simp
      then have "reference_host (c # cs) = Some (takeWhile is_host_char cs)"
        unfolding reference_host_def by (simp add: run)
      with True show ?thesis by simp
    next
      case False
      then have n0: "\<not> reference_match (c # cs) 0" by (simp add: m0)
      have "find (reference_match (c # cs)) [0..<length (c # cs)] =
              find (reference_match (c # cs)) (map Suc [0..<length cs])"
        unfolding upt_0_Cons using n0 by (rule find_Cons_not)
      also have "\<dots> = map_option Suc (find (reference_match (c # cs) \<circ> Suc) [0..<length cs])"
        by (rule find_map_comp)
      also have "\<dots> = map_option Suc (find (reference_match cs) [0..<length cs])"
        by (simp only: mSuc)
      finally have "reference_host (c # cs) = reference_host cs"
        unfolding reference_host_def by (simp add: option.map_comp comp_def)
      with False Cons.IH show ?thesis by auto
    qed
  qed
  \<comment> \<open>the traversal of the reference writes and counts as the loop of the code does\<close>
  have wu: "fst (single_pass cfg us A content n sk) = fst (write_users cfg us content n sk) \<and>
            snd (snd (single_pass cfg us A content n sk)) = snd (write_users cfg us content n sk)"
    for us A content n sk
  proof (induction us arbitrary: A content n sk)
    case Nil
    show ?case by simp
  next
    case (Cons u rest)
    show ?case
    proof (cases "email u")
      case None
      with Cons.IH show ?thesis by simp
    next
      case (Some e)
      show ?thesis
      proof (cases "e = []")
        case True
        with Some Cons.IH show ?thesis by simp
      next
        case False
        with Some Cons.IH show ?thesis
          by (cases "write_exn cfg USERS_FILE n") (simp_all add: Let_def user_line_def)
      qed
    qed
  qed
  \<comment> \<open>and, when it ends without exception, collects the set of the comprehension\<close>
  have dom: "fst (single_pass cfg us A content n sk) = None \<Longrightarrow>
             fst (snd (single_pass cfg us A content n sk)) = fold add_domain us A"
    for us A content n sk
  proof (induction us arbitrary: A content n sk)
    case Nil
    show ?case by simp
  next
    case (Cons u rest)
    show ?case
    proof (cases "email u")
      case None
      with Cons show ?thesis by (simp add: add_domain_def)
    next
      case (Some e)
      show ?thesis
      proof (cases "e = []")
        case True
        with Some Cons show ?thesis by (simp add: add_domain_def)
      next
        case False
        with Some Cons.prems obtain wn: "write_exn cfg USERS_FILE n = None"
          by (cases "write_exn cfg USERS_FILE n") (simp_all add: Let_def)
        have a: "add_domain u A =
                   (case reference_host e of
                      Some h \<Rightarrow> insert (reference_lower h) A
                    | None \<Rightarrow> A)"
          using Some False by (simp add: add_domain_def host low split: option.split)
        from Cons.prems Some False wn
        have "fst (single_pass cfg rest (add_domain u A)
                     (content @ username u @ '' - '' @ e @ ''\<newline>'') (n + 1) sk) = None"
          by (simp add: Let_def a)
        from Cons.IH[OF this] Some False wn show ?thesis
          by (simp add: Let_def a)
      qed
    qed
  qed
  obtain x D c s where sp: "single_pass cfg users {} [] 0 0 = (x, D, c, s)"
    using prod_cases4 by blast
  with wu[of users "{}" "[]" 0 0]
  have wr: "write_users cfg users [] 0 0 = (x, c, s)"
    by (metis fst_conv snd_conv prod.collapse)
  have D: "D = domain_comprehension users" if "x = None"
    using that sp dom[of users "{}" "[]" 0 0]
    by (simp add: domain_comprehension_def)
  have eq: "extract_domains cfg users w = extract_domains_single_pass cfg users w"
  proof (cases "open_exn cfg USERS_FILE")
    case (Some e)
    then show ?thesis by (simp add: extract_domains_def extract_domains_single_pass_def)
  next
    case None
    show ?thesis
    proof (cases x)
      case xNone: None
      with None sp wr D show ?thesis
        by (simp add: extract_domains_def extract_domains_single_pass_def)
    next
      case (Some e)
      with None sp wr show ?thesis
        by (simp add: extract_domains_def extract_domains_single_pass_def)
    qed
  qed
  have "\<exists>domains content skipped_users.
         single_pass cfg users {} [] 0 0 = (None, domains, content, skipped_users) \<and>
         extract_domains cfg users w =
           (Inr domains, logging (Skipped skipped_users) (put_file USERS_FILE content w))"
    if f: "open_exn cfg USERS_FILE = None \<and> (\<forall>n. write_exn cfg USERS_FILE n = None)"
  proof -
    from f write_users_no_fault[of cfg users "[]" 0 0] wr have x: "x = None" by simp
    with sp f have "extract_domains_single_pass cfg users w =
           (Inr D, logging (Skipped s) (put_file USERS_FILE c w))"
      by (simp add: extract_domains_single_pass_def)
    with eq sp x show ?thesis by simp
  qed
  with eq show ?thesis by blast
qed

theorem extract_domains_is_single_pass_witness:
  "extract_domains quiet_env example_users empty_world =
     extract_domains_single_pass quiet_env example_users empty_world
   \<and> single_pass quiet_env example_users {} [] 0 0 =
       (None, {''example.com'', ''other.org''},
        ''alice - a@Example.com\<newline>bob - b@EXAMPLE.COM\<newline>carol - c@other.org\<newline>frank - not-an-email\<newline>'',
        2)
   \<and> fst (extract_domains quiet_env example_users empty_world) =
       Inr {''example.com'', ''other.org''}
   \<and> files (snd (extract_domains quiet_env example_users empty_world)) USERS_FILE =
       Some ''alice - a@Example.com\<newline>bob - b@EXAMPLE.COM\<newline>carol - c@other.org\<newline>frank - not-an-email\<newline>''
   \<and> logged (snd (extract_domains quiet_env example_users empty_world)) = [Skipped 2]
   \<and> extract_domains second_write_fails_env example_users empty_world =
       extract_domains_single_pass second_write_fails_env example_users empty_world
   \<and> single_pass second_write_fails_env example_users {} [] 0 0 =
       (Some IOError, {''example.com''}, ''alice - a@Example.com\<newline>'', 0)
   \<and> fst (extract_domains second_write_fails_env example_users empty_world) = Inl IOError
   \<and> files (snd (extract_domains second_write_fails_env example_users empty_world)) USERS_FILE =
       Some ''alice - a@Example.com\<newline>''"
proof (intro conjI)
  show "extract_domains quiet_env example_users empty_world =
     extract_domains_single_pass quiet_env example_users empty_world"
    by (rule extract_domains_is_single_pass[THEN conjunct1])
  show "extract_domains second_write_fails_env example_users empty_world =
       extract_domains_single_pass second_write_fails_env example_users empty_world"
    by (rule extract_domains_is_single_pass[THEN conjunct1])
  \<comment> \<open>the reference, run\<close>
  show "single_pass quiet_env example_users {} [] 0 0 =
       (None, {''example.com'', ''other.org''},
        ''alice - a@Example.com\<newline>bob - b@EXAMPLE.COM\<newline>carol - c@other.org\<newline>frank - not-an-email\<newline>'',
        2)"
    by code_simp
  show "single_pass second_write_fails_env example_users {} [] 0 0 =
       (Some IOError, {''example.com''}, ''alice - a@Example.com\<newline>'', 0)"
    by code_simp
  \<comment> \<open>the code, run\<close>
  show "fst (extract_domains quiet_env example_users empty_world) =
       Inr {''example.com'', ''other.org''}"
    by code_simp
  show "files (snd (extract_domains quiet_env example_users empty_world)) USERS_FILE =
       Some ''alice - a@Example.com\<newline>bob - b@EXAMPLE.COM\<newline>carol - c@other.org\<newline>frank - not-an-email\<newline>''"
    by code_simp
  show "logged (snd (extract_domains quiet_env example_users empty_world)) = [Skipped 2]"
    by code_simp
  show "fst (extract_domains second_write_fails_env example_users empty_world) = Inl IOError"
    by code_simp
  show "files (snd (extract_domains second_write_fails_env example_users empty_world)) USERS_FILE =
       Some ''alice - a@Example.com\<newline>''"
    by code_simp
qed

subsection \<open>save_domains\<close>

lemma join_append_sep:
  "xs \<noteq> [] \<Longrightarrow> join sep xs @ sep = concat (map (\<lambda>x. x @ sep) xs)"
  by (induction sep xs rule: join.induct) simp_all

lemma save_domains_try_no_fault:
  assumes "open_exn cfg DOMAINS_FILE = None" and "write_exn cfg DOMAINS_FILE 0 = None"
  shows "save_domains_try cfg domains w =
           (Inr (), put_file DOMAINS_FILE
                      (join ''\<newline>'' (sorted_list_of_set domains) @ ''\<newline>'') w)"
  using assms by (simp add: save_domains_try_def)

lemma save_domains_no_fault:
  assumes "open_exn cfg DOMAINS_FILE = None" and "write_exn cfg DOMAINS_FILE 0 = None"
  shows "save_domains cfg domains w =
           (Inr (), logging DomainsSaved (logging (DomainsFound (card domains))
              (put_file DOMAINS_FILE
                 (join ''\<newline>'' (sorted_list_of_set domains) @ ''\<newline>'') w)))"
  by (simp add: save_domains_def save_domains_try_no_fault[OF assms])

lemma save_domains_Inr:
  assumes "fst (save_domains cfg domains w) = Inr u"
  shows "open_exn cfg DOMAINS_FILE = None \<and> write_exn cfg DOMAINS_FILE 0 = None"
  using assms
  by (auto simp: save_domains_def save_domains_try_def split: option.splits if_splits)

lemma example_domains_file:
  "join ''\<newline>'' (sorted_list_of_set {''example.com'', ''other.org''}) @ ''\<newline>'' =
     ''example.com\<newline>other.org\<newline>''"
  by code_simp

lemma three_emails_domains:
  "domain_comprehension [mk_user n1 (Some ''a@Example.com''), mk_user n2 (Some ''b@EXAMPLE.COM''),
      mk_user n3 (Some ''c@other.org'')] = {''example.com'', ''other.org''}"
proof -
  have s: "search ''a@Example.com'' = Some ''Example.com''" "search ''b@EXAMPLE.COM'' = Some ''EXAMPLE.COM''"
    "search ''c@other.org'' = Some ''other.org''"
    by code_simp+
  have l: "lower ''Example.com'' = ''example.com''" "lower ''EXAMPLE.COM'' = ''example.com''"
    "lower ''other.org'' = ''other.org''"
    by code_simp+
  show ?thesis
    by (auto simp add: domain_comprehension_def add_domain_def mk_user_def s l
          simp del: search.simps)
qed

text \<open>
  C4. For every (finite) set of domains, when no file operation on the domains file
  fails, \<open>save_domains\<close> returns and the file holds the elements of the set in ascending
  lexicographic order, each once, joined by newlines, and a final newline; when the set
  is not empty this is one line per element. The file has this content whenever
  \<open>save_domains\<close> returns. For users with the emails \<^verbatim>\<open>a@Example.com\<close>,
  \<^verbatim>\<open>b@EXAMPLE.COM\<close> and \<^verbatim>\<open>c@other.org\<close>, \<open>extract_domains\<close> followed by
  \<open>save_domains\<close> leaves the two lines \<^verbatim>\<open>example.com\<close> and \<^verbatim>\<open>other.org\<close> in the file.
\<close>

theorem save_domains_sorted_file:
  "(finite domains \<and> open_exn cfg DOMAINS_FILE = None \<and> write_exn cfg DOMAINS_FILE 0 = None \<longrightarrow>
      fst (save_domains cfg domains w) = Inr () \<and>
      files (snd (save_domains cfg domains w)) DOMAINS_FILE =
        Some (join ''\<newline>'' (sorted_list_of_set domains) @ ''\<newline>'') \<and>
      sorted (sorted_list_of_set domains) \<and> distinct (sorted_list_of_set domains) \<and>
      set (sorted_list_of_set domains) = domains \<and>
      (domains \<noteq> {} \<longrightarrow>
         join ''\<newline>'' (sorted_list_of_set domains) @ ''\<newline>'' =
           concat (map (\<lambda>d. d @ ''\<newline>'') (sorted_list_of_set domains))))
   \<and> (fst (save_domains cfg domains w) = Inr u \<longrightarrow>
      files (snd (save_domains cfg domains w)) DOMAINS_FILE =
        Some (join ''\<newline>'' (sorted_list_of_set domains) @ ''\<newline>''))
   \<and> (open_exn cfg USERS_FILE = None \<and> (\<forall>n. write_exn cfg USERS_FILE n = None) \<and>
      open_exn cfg DOMAINS_FILE = None \<and> write_exn cfg DOMAINS_FILE 0 = None \<and>
      users = [mk_user n1 (Some ''a@Example.com''), mk_user n2 (Some ''b@EXAMPLE.COM''),
               mk_user n3 (Some ''c@other.org'')] \<longrightarrow>
      (\<exists>unique_domains w1.
         extract_domains cfg users w = (Inr unique_domains, w1) \<and>
         files (snd (save_domains cfg unique_domains w1)) DOMAINS_FILE =
           Some ''example.com\<newline>other.org\<newline>''))"
proof (intro conjI impI)
  assume a: "finite domains \<and> open_exn cfg DOMAINS_FILE = None \<and>
    write_exn cfg DOMAINS_FILE 0 = None"
  then have s: "save_domains cfg domains w =
           (Inr (), logging DomainsSaved (logging (DomainsFound (card domains))
              (put_file DOMAINS_FILE
                 (join ''\<newline>'' (sorted_list_of_set domains) @ ''\<newline>'') w)))"
    by (simp add: save_domains_no_fault)
  show "fst (save_domains cfg domains w) = Inr ()" by (simp add: s)
  show "files (snd (save_domains cfg domains w)) DOMAINS_FILE =
        Some (join ''\<newline>'' (sorted_list_of_set domains) @ ''\<newline>'')"
    by (simp add: s)
  show "sorted (sorted_list_of_set domains)" by simp
  show "distinct (sorted_list_of_set domains)" by simp
  show "set (sorted_list_of_set domains) = domains" using a by simp
  assume "domains \<noteq> {}"
  with a have "sorted_list_of_set domains \<noteq> []" by simp
  then show "join ''\<newline>'' (sorted_list_of_set domains) @ ''\<newline>'' =
           concat (map (\<lambda>d. d @ ''\<newline>'') (sorted_list_of_set domains))"
    by (rule join_append_sep)
next
  assume "fst (save_domains cfg domains w) = Inr u"
  from save_domains_Inr[OF this]
  have "save_domains cfg domains w =
           (Inr (), logging DomainsSaved (logging (DomainsFound (card domains))
              (put_file DOMAINS_FILE
                 (join ''\<newline>'' (sorted_list_of_set domains) @ ''\<newline>'') w)))"
    by (simp add: save_domains_no_fault)
  then show "files (snd (save_domains cfg domains w)) DOMAINS_FILE =
        Some (join ''\<newline>'' (sorted_list_of_set domains) @ ''\<newline>'')"
    by simp
next
  assume a: "open_exn cfg USERS_FILE = None \<and> (\<forall>n. write_exn cfg USERS_FILE n = None) \<and>
      open_exn cfg DOMAINS_FILE = None \<and> write_exn cfg DOMAINS_FILE 0 = None \<and>
      users = [mk_user n1 (Some ''a@Example.com''), mk_user n2 (Some ''b@EXAMPLE.COM''),
               mk_user n3 (Some ''c@other.org'')]"
  then obtain returned where r: "fst (extract_domains cfg users w) = Inr returned"
    using extract_domains_no_fault[of cfg users w] by blast
  from extract_domains_Inr[OF r] a
  have e: "extract_domains cfg users w =
             (Inr {''example.com'', ''other.org''}, snd (extract_domains cfg users w))"
    by (simp add: three_emails_domains)
  from a have "files (snd (save_domains cfg {''example.com'', ''other.org''}
                  (snd (extract_domains cfg users w)))) DOMAINS_FILE =
               Some ''example.com\<newline>other.org\<newline>''"
    by (simp add: save_domains_no_fault example_domains_file del: sorted_list_of_set_insert_remove)
  with e show "\<exists>unique_domains w1.
         extract_domains cfg users w = (Inr unique_domains, w1) \<and>
         files (snd (save_domains cfg unique_domains w1)) DOMAINS_FILE =
           Some ''example.com\<newline>other.org\<newline>''"
    by blast
qed

theorem save_domains_sorted_file_witness:
  "files (snd (save_domains quiet_env {''other.org'', ''example.com''} empty_world)) DOMAINS_FILE =
     Some (join ''\<newline>'' (sorted_list_of_set {''other.org'', ''example.com''}) @ ''\<newline>'')
   \<and> join ''\<newline>'' (sorted_list_of_set {''other.org'', ''example.com''}) @ ''\<newline>'' =
       ''example.com\<newline>other.org\<newline>''
   \<and> (\<exists>unique_domains w1.
         extract_domains quiet_env
           [mk_user ''alice'' (Some ''a@Example.com''), mk_user ''bob'' (Some ''b@EXAMPLE.COM''),
            mk_user ''carol'' (Some ''c@other.org'')] empty_world = (Inr unique_domains, w1) \<and>
         files (snd (save_domains quiet_env unique_domains w1)) DOMAINS_FILE =
           Some ''example.com\<newline>other.org\<newline>'')"
proof -
  have h: "finite {''other.org'', ''example.com''} \<and> open_exn quiet_env DOMAINS_FILE = None \<and>
           write_exn quiet_env DOMAINS_FILE 0 = None"
    by (simp add: quiet_env_def example_env_def)
  have c: "join ''\<newline>'' (sorted_list_of_set {''other.org'', ''example.com''}) @ ''\<newline>'' =
       ''example.com\<newline>other.org\<newline>''"
    by code_simp
  have q: "open_exn quiet_env USERS_FILE = None \<and> (\<forall>n. write_exn quiet_env USERS_FILE n = None) \<and>
      open_exn quiet_env DOMAINS_FILE = None \<and> write_exn quiet_env DOMAINS_FILE 0 = None \<and>
      [mk_user ''alice'' (Some ''a@Example.com''), mk_user ''bob'' (Some ''b@EXAMPLE.COM''),
       mk_user ''carol'' (Some ''c@other.org'')] =
      [mk_user ''alice'' (Some ''a@Example.com''), mk_user ''bob'' (Some ''b@EXAMPLE.COM''),
       mk_user ''carol'' (Some ''c@other.org'')]"
    by (simp add: quiet_env_def example_env_def)
  note t = save_domains_sorted_file[of "{''other.org'', ''example.com''}" quiet_env empty_world]
  from t[THEN conjunct1, THEN mp, OF h]
  have "files (snd (save_domains quiet_env {''other.org'', ''example.com''} empty_world)) DOMAINS_FILE =
     Some (join ''\<newline>'' (sorted_list_of_set {''other.org'', ''example.com''}) @ ''\<newline>'')"
    by blast
  with c t[THEN conjunct2, THEN conjunct2, THEN mp, OF q] show ?thesis by blast
qed

text \<open>
  C10. For the empty set of domains, \<open>save_domains\<close> returns when no file operation on
  the domains file fails, and whenever it returns the domains file exists and its content
  is exactly one newline character.
\<close>

theorem save_domains_empty_set:
  "(open_exn cfg DOMAINS_FILE = None \<and> write_exn cfg DOMAINS_FILE 0 = None \<longrightarrow>
      fst (save_domains cfg {} w) = Inr () \<and>
      files (snd (save_domains cfg {} w)) DOMAINS_FILE = Some ''\<newline>'')
   \<and> (fst (save_domains cfg {} w) = Inr u \<longrightarrow>
      files (snd (save_domains cfg {} w)) DOMAINS_FILE = Some ''\<newline>'')
   \<and> length ''\<newline>'' = 1"
proof (intro conjI impI)
  assume a: "open_exn cfg DOMAINS_FILE = None \<and> write_exn cfg DOMAINS_FILE 0 = None"
  then show "fst (save_domains cfg {} w) = Inr ()"
    and "files (snd (save_domains cfg {} w)) DOMAINS_FILE = Some ''\<newline>''"
    by (simp_all add: save_domains_no_fault)
next
  assume "fst (save_domains cfg {} w) = Inr u"
  from save_domains_Inr[OF this]
  show "files (snd (save_domains cfg {} w)) DOMAINS_FILE = Some ''\<newline>''"
    by (simp add: save_domains_no_fault)
next
  show "length ''\<newline>'' = 1" by simp
qed

theorem save_domains_empty_set_witness:
  "fst (save_domains quiet_env {} empty_world) = Inr () \<and>
   files (snd (save_domains quiet_env {} empty_world)) DOMAINS_FILE = Some ''\<newline>''"
proof -
  have h: "open_exn quiet_env DOMAINS_FILE = None \<and> write_exn quiet_env DOMAINS_FILE 0 = None"
    by (simp add: quiet_env_def example_env_def)
  show ?thesis
    by (rule save_domains_empty_set[of quiet_env empty_world, THEN conjunct1, THEN mp, OF h])
qed

subsection \<open>main and the script\<close>

lemma connect_gitlab_ok:
  "auth_exn cfg = None \<Longrightarrow>
     connect_gitlab cfg w =
       (Inr (), logging Connected (call GlAuth
                  (call (GitlabSession (GITLAB_URL cfg) (PRIVATE_TOKEN cfg)) w)))"
  by (simp add: connect_gitlab_def connect_gitlab_try_def)

lemma connect_gitlab_raises:
  "auth_exn cfg = Some e \<Longrightarrow>
     connect_gitlab cfg w =
       (let w' = call GlAuth (call (GitlabSession (GITLAB_URL cfg) (PRIVATE_TOKEN cfg)) w) in
        if is_GitlabAuthenticationError e
        then (Inl (SystemExit 2), logging AuthenticationFailed w')
        else if is_RequestException e
        then (Inl (SystemExit 3), logging (ConnectionFailed e) w')
        else (Inl e, w'))"
  by (simp add: connect_gitlab_def connect_gitlab_try_def Let_def)

lemma main_connect_exits:
  assumes "fst (connect_gitlab cfg w) = Inl (SystemExit n)"
  shows "main cfg w = Some (connect_gitlab cfg w)"
proof -
  obtain r w1 where c: "connect_gitlab cfg w = (r, w1)" by (cases "connect_gitlab cfg w")
  with assms have "r = Inl (SystemExit n)" by simp
  with c show ?thesis by (simp add: main_def main_try_def)
qed

lemma save_domains_io_error:
  assumes "open_exn cfg DOMAINS_FILE = Some e \<or>
           open_exn cfg DOMAINS_FILE = None \<and> write_exn cfg DOMAINS_FILE 0 = Some e"
    and "is_IOError e"
  shows "fst (save_domains cfg domains w) = Inl (SystemExit 6)"
  using assms by (auto simp: save_domains_def save_domains_try_def)

lemma main_save_domains_exits:
  assumes "fst (connect_gitlab cfg w) = Inr gl"
    and "get_users cfg (snd (connect_gitlab cfg w)) = Some (Inr users, w2)"
    and "fst (extract_domains cfg users w2) = Inr unique_domains"
    and "fst (save_domains cfg unique_domains (snd (extract_domains cfg users w2))) =
           Inl (SystemExit n)"
  shows "main cfg w = Some (save_domains cfg unique_domains (snd (extract_domains cfg users w2)))"
proof -
  obtain w1 where c: "connect_gitlab cfg w = (Inr gl, w1)"
    using assms(1) by (cases "connect_gitlab cfg w") simp
  obtain w3 where e: "extract_domains cfg users w2 = (Inr unique_domains, w3)"
    using assms(3) by (cases "extract_domains cfg users w2") simp
  obtain w4 where s: "save_domains cfg unique_domains w3 = (Inl (SystemExit n), w4)"
    using assms(4) e by (cases "save_domains cfg unique_domains w3") simp
  from assms(2) c have g: "get_users cfg w1 = Some (Inr users, w2)" by simp
  show ?thesis by (simp add: main_def main_try_def c g e s)
qed

lemma main_catches_Exception:
  assumes "main_try cfg w = Some (Inl e, w')" and "is_Exception e"
  shows "main cfg w = Some (Inl (SystemExit 7), logging (Unexpected e) w')"
  using assms by (simp add: main_def)

lemma main_passes_SystemExit:
  assumes "main_try cfg w = Some (Inl (SystemExit n), w')"
  shows "main cfg w = Some (Inl (SystemExit n), w')"
  using assms by (simp add: main_def)

text \<open>
  C6. When neither flag is given and neither environment variable is set, the script
  ends with \<^verbatim>\<open>sys.exit(1)\<close>, having issued no API call (no session construction, no
  authentication, no page request) and touched no file. The same holds whenever the
  resolved endpoint or the resolved credential is falsy.
\<close>

theorem script_missing_configuration:
  "(cli_url cfg = None \<and> cli_token cfg = None \<and> env_url cfg = None \<and> env_token cfg = None \<longrightarrow>
      (\<exists>r w'. script cfg w = Some (r, w') \<and> exit_code r = Some 1 \<and>
               api_calls w' = api_calls w \<and> files w' = files w))
   \<and> (\<not> truthy (GITLAB_URL cfg) \<or> \<not> truthy (PRIVATE_TOKEN cfg) \<longrightarrow>
      (\<exists>r w'. script cfg w = Some (r, w') \<and> exit_code r = Some 1 \<and>
               api_calls w' = api_calls w \<and> files w' = files w))"
proof (intro conjI impI)
  assume "cli_url cfg = None \<and> cli_token cfg = None \<and> env_url cfg = None \<and> env_token cfg = None"
  then have "script cfg w = Some (Inl (SystemExit 1), logging MissingConfig w)"
    by (simp add: script_def GITLAB_URL_def PRIVATE_TOKEN_def py_or_def)
  then show "\<exists>r w'. script cfg w = Some (r, w') \<and> exit_code r = Some 1 \<and>
               api_calls w' = api_calls w \<and> files w' = files w"
    by simp
next
  assume "\<not> truthy (GITLAB_URL cfg) \<or> \<not> truthy (PRIVATE_TOKEN cfg)"
  then have "script cfg w = Some (Inl (SystemExit 1), logging MissingConfig w)"
    by (auto simp: script_def)
  then show "\<exists>r w'. script cfg w = Some (r, w') \<and> exit_code r = Some 1 \<and>
               api_calls w' = api_calls w \<and> files w' = files w"
    by simp
qed

theorem script_missing_configuration_witness:
  "\<exists>r w'. script (quiet_env\<lparr>cli_url := None, cli_token := None\<rparr>) empty_world = Some (r, w') \<and>
      exit_code r = Some 1 \<and> api_calls w' = api_calls empty_world \<and> files w' = files empty_world"
  by (rule script_missing_configuration
        [of "quiet_env\<lparr>cli_url := None, cli_token := None\<rparr>" empty_world,
         THEN conjunct1, THEN mp])
     (simp add: quiet_env_def example_env_def)

text \<open>
  C7. With a configured endpoint and credential, when \<^verbatim>\<open>gl.auth()\<close> raises
  \<^verbatim>\<open>GitlabAuthenticationError\<close> the script ends with \<^verbatim>\<open>sys.exit(2)\<close>; both output
  files are as they were before the run (neither created nor truncated), and the only API
  calls are the session construction and the authentication.
\<close>

theorem script_authentication_rejected:
  "truthy (GITLAB_URL cfg) \<and> truthy (PRIVATE_TOKEN cfg) \<and>
   auth_exn cfg = Some GitlabAuthenticationError \<longrightarrow>
     (\<exists>r w'. script cfg w = Some (r, w') \<and> exit_code r = Some 2 \<and> files w' = files w \<and>
        api_calls w' =
          api_calls w @ [GitlabSession (GITLAB_URL cfg) (PRIVATE_TOKEN cfg), GlAuth])"
proof
  assume a: "truthy (GITLAB_URL cfg) \<and> truthy (PRIVATE_TOKEN cfg) \<and>
   auth_exn cfg = Some GitlabAuthenticationError"
  let ?w' = "logging AuthenticationFailed
               (call GlAuth (call (GitlabSession (GITLAB_URL cfg) (PRIVATE_TOKEN cfg)) w))"
  from a have c: "connect_gitlab cfg w = (Inl (SystemExit 2), ?w')"
    by (simp add: connect_gitlab_raises)
  then have "main cfg w = Some (Inl (SystemExit 2), ?w')"
    using main_connect_exits[of cfg w 2] by simp
  with a have "script cfg w = Some (Inl (SystemExit 2), ?w')"
    by (simp add: script_def)
  then show "\<exists>r w'. script cfg w = Some (r, w') \<and> exit_code r = Some 2 \<and> files w' = files w \<and>
        api_calls w' =
          api_calls w @ [GitlabSession (GITLAB_URL cfg) (PRIVATE_TOKEN cfg), GlAuth]"
    by simp
qed

theorem script_authentication_rejected_witness:
  "\<exists>r w'. script (example_env (Some GitlabAuthenticationError) (serve_pages [example_users]))
             empty_world = Some (r, w') \<and>
      exit_code r = Some 2 \<and> files w' = files empty_world \<and>
      api_calls w' = api_calls empty_world @
        [GitlabSession
           (GITLAB_URL (example_env (Some GitlabAuthenticationError) (serve_pages [example_users])))
           (PRIVATE_TOKEN (example_env (Some GitlabAuthenticationError) (serve_pages [example_users]))),
         GlAuth]"
  by (rule script_authentication_rejected
        [of "example_env (Some GitlabAuthenticationError) (serve_pages [example_users])" empty_world,
         THEN mp])
     (simp add: example_env_def GITLAB_URL_def PRIVATE_TOKEN_def py_or_def)

lemma unwritable_domains_env_get_users:
  "get_users unwritable_domains_env w =
     Some (Inr example_users,
           logging (TotalUsers (length example_users))
             (call (UsersList 100 2) (call (UsersList 100 1) (logging FetchingUsers w))))"
proof -
  have p1: "users_list unwritable_domains_env 100 1 = Inr example_users"
    and p2: "users_list unwritable_domains_env 100 (Suc 1) = Inr []"
    by (simp_all add: unwritable_domains_env_def example_env_def serve_pages_def)
  have ne: "example_users \<noteq> []" by (simp add: example_users_def)
  have "get_users_loop unwritable_domains_env [] 1 (logging FetchingUsers w) =
          get_users_loop unwritable_domains_env ([] @ example_users) (Suc 1)
            (call (UsersList 100 1) (logging FetchingUsers w))"
    by (rule get_users_loop_nonempty[OF p1 ne])
  also have "\<dots> = Some (Inr ([] @ example_users),
                 call (UsersList 100 (Suc 1)) (call (UsersList 100 1) (logging FetchingUsers w)))"
    by (rule get_users_loop_empty[OF p2])
  finally show ?thesis by (simp add: get_users_def eval_nat_numeral)
qed

text \<open>
  C9. \<open>connect_gitlab\<close> exits with code 2 on \<^verbatim>\<open>GitlabAuthenticationError\<close> and with
  code 3 on \<^verbatim>\<open>RequestException\<close>, and \<open>save_domains\<close> exits with code 6 on an
  \<^verbatim>\<open>IOError\<close> from opening or writing the domains file. When either function ends with
  \<open>SystemExit n\<close> inside the \<^verbatim>\<open>try\<close> of \<open>main\<close>, \<open>main\<close> ends with the same
  \<open>SystemExit n\<close> and the same world: the handler \<^verbatim>\<open>except Exception\<close> lets every
  \<open>SystemExit\<close> through, since it is not an \<^verbatim>\<open>Exception\<close>, and turns into exit 7 only
  what is one.
\<close>

theorem main_keeps_exit_codes:
  "(auth_exn cfg = Some GitlabAuthenticationError \<longrightarrow>
      fst (connect_gitlab cfg w) = Inl (SystemExit 2))
   \<and> (auth_exn cfg = Some RequestException \<longrightarrow>
      fst (connect_gitlab cfg w) = Inl (SystemExit 3))
   \<and> (fst (connect_gitlab cfg w) = Inl (SystemExit n) \<longrightarrow>
      main cfg w = Some (connect_gitlab cfg w))
   \<and> ((open_exn cfg DOMAINS_FILE = Some e \<or>
       open_exn cfg DOMAINS_FILE = None \<and> write_exn cfg DOMAINS_FILE 0 = Some e) \<and>
      is_IOError e \<longrightarrow>
      fst (save_domains cfg domains w3) = Inl (SystemExit 6))
   \<and> (fst (connect_gitlab cfg w) = Inr gl \<and>
      get_users cfg (snd (connect_gitlab cfg w)) = Some (Inr users, w2) \<and>
      fst (extract_domains cfg users w2) = Inr unique_domains \<and>
      fst (save_domains cfg unique_domains (snd (extract_domains cfg users w2))) =
        Inl (SystemExit n) \<longrightarrow>
      main cfg w =
        Some (save_domains cfg unique_domains (snd (extract_domains cfg users w2))))
   \<and> (main_try cfg w = Some (Inl (SystemExit n), w') \<longrightarrow>
      main cfg w = Some (Inl (SystemExit n), w'))
   \<and> (main_try cfg w = Some (Inl x, w') \<and> is_Exception x \<longrightarrow>
      main cfg w = Some (Inl (SystemExit 7), logging (Unexpected x) w'))
   \<and> is_Exception (SystemExit n) = False"
proof (intro conjI impI)
  assume "auth_exn cfg = Some GitlabAuthenticationError"
  then show "fst (connect_gitlab cfg w) = Inl (SystemExit 2)"
    by (simp add: connect_gitlab_raises)
next
  assume "auth_exn cfg = Some RequestException"
  then show "fst (connect_gitlab cfg w) = Inl (SystemExit 3)"
    by (simp add: connect_gitlab_raises)
next
  assume "fst (connect_gitlab cfg w) = Inl (SystemExit n)"
  then show "main cfg w = Some (connect_gitlab cfg w)"
    by (rule main_connect_exits)
next
  assume "(open_exn cfg DOMAINS_FILE = Some e \<or>
       open_exn cfg DOMAINS_FILE = None \<and> write_exn cfg DOMAINS_FILE 0 = Some e) \<and>
      is_IOError e"
  then show "fst (save_domains cfg domains w3) = Inl (SystemExit 6)"
    using save_domains_io_error[of cfg e domains w3] by blast
next
  assume "fst (connect_gitlab cfg w) = Inr gl \<and>
      get_users cfg (snd (connect_gitlab cfg w)) = Some (Inr users, w2) \<and>
      fst (extract_domains cfg users w2) = Inr unique_domains \<and>
      fst (save_domains cfg unique_domains (snd (extract_domains cfg users w2))) =
        Inl (SystemExit n)"
  then show "main cfg w =
        Some (save_domains cfg unique_domains (snd (extract_domains cfg users w2)))"
    using main_save_domains_exits[of cfg w gl users w2 unique_domains n] by blast
next
  assume "main_try cfg w = Some (Inl (SystemExit n), w')"
  then show "main cfg w = Some (Inl (SystemExit n), w')"
    by (rule main_passes_SystemExit)
next
  assume "main_try cfg w = Some (Inl x, w') \<and> is_Exception x"
  then show "main cfg w = Some (Inl (SystemExit 7), logging (Unexpected x) w')"
    using main_catches_Exception[of cfg w x w'] by blast
next
  show "is_Exception (SystemExit n) = False" by simp
qed

theorem main_keeps_exit_codes_witness:
  "map_option fst (main (example_env (Some GitlabAuthenticationError) (serve_pages [example_users]))
                        empty_world) = Some (Inl (SystemExit 2))
   \<and> map_option fst (main (example_env (Some RequestException) (serve_pages [example_users]))
                        empty_world) = Some (Inl (SystemExit 3))
   \<and> map_option fst (main unwritable_domains_env empty_world) = Some (Inl (SystemExit 6))"
proof (intro conjI)
  let ?E = "example_env (Some GitlabAuthenticationError) (serve_pages [example_users])"
  have a: "auth_exn ?E = Some GitlabAuthenticationError" by (simp add: example_env_def)
  note t = main_keeps_exit_codes[of ?E empty_world 2]
  from t[THEN conjunct1, THEN mp, OF a]
  have c: "fst (connect_gitlab ?E empty_world) = Inl (SystemExit 2)" .
  from t[THEN conjunct2, THEN conjunct2, THEN conjunct1, THEN mp, OF c] c
  show "map_option fst (main ?E empty_world) = Some (Inl (SystemExit 2))" by simp
next
  let ?E = "example_env (Some RequestException) (serve_pages [example_users])"
  have a: "auth_exn ?E = Some RequestException" by (simp add: example_env_def)
  note t = main_keeps_exit_codes[of ?E empty_world 3]
  from t[THEN conjunct2, THEN conjunct1, THEN mp, OF a]
  have c: "fst (connect_gitlab ?E empty_world) = Inl (SystemExit 3)" .
  from t[THEN conjunct2, THEN conjunct2, THEN conjunct1, THEN mp, OF c] c
  show "map_option fst (main ?E empty_world) = Some (Inl (SystemExit 3))" by simp
next
  let ?E = unwritable_domains_env
  let ?w1 = "snd (connect_gitlab ?E empty_world)"
  let ?w2 = "logging (TotalUsers (length example_users))
             (call (UsersList 100 2) (call (UsersList 100 1) (logging FetchingUsers ?w1)))"
  let ?D = "domain_comprehension example_users"
  have au: "auth_exn ?E = None" by (simp add: unwritable_domains_env_def example_env_def)
  have c: "fst (connect_gitlab ?E empty_world) = Inr ()"
    by (simp add: connect_gitlab_ok[OF au])
  have g: "get_users ?E ?w1 = Some (Inr example_users, ?w2)"
    by (rule unwritable_domains_env_get_users)
  have "open_exn ?E USERS_FILE = None" "\<forall>n. write_exn ?E USERS_FILE n = None"
    by (simp_all add: unwritable_domains_env_def example_env_def)
  then obtain returned where "fst (extract_domains ?E example_users ?w2) = Inr returned"
    using extract_domains_no_fault by blast
  from extract_domains_Inr[OF this]
  have x: "fst (extract_domains ?E example_users ?w2) = Inr ?D" by simp
  have o: "(open_exn ?E DOMAINS_FILE = Some IOError \<or>
       open_exn ?E DOMAINS_FILE = None \<and> write_exn ?E DOMAINS_FILE 0 = Some IOError) \<and>
      is_IOError IOError"
    by (simp add: unwritable_domains_env_def example_env_def)
  note t = main_keeps_exit_codes[of ?E empty_world 6 IOError ?D
             "snd (extract_domains ?E example_users ?w2)" "()" example_users ?w2 ?D]
  from t[THEN conjunct2, THEN conjunct2, THEN conjunct2, THEN conjunct1, THEN mp, OF o]
  have s: "fst (save_domains ?E ?D (snd (extract_domains ?E example_users ?w2))) =
             Inl (SystemExit 6)" .
  from t[THEN conjunct2, THEN conjunct2, THEN conjunct2, THEN conjunct2, THEN conjunct1, THEN mp,
         OF conjI[OF c conjI[OF g conjI[OF x s]]]] s
  show "map_option fst (main ?E empty_world) = Some (Inl (SystemExit 6))" by simp
qed

end
